theory Spec2Isabelle
  imports Main "HOL-Library.Sublist" "HOL-Library.AList" "HOL-Library.Char_ord"
    "HOL-Library.List_Lexorder"
begin

section \<open>Python values and library functions used by helpers.py\<close>

text \<open>
  Python \<open>int\<close> is \<^typ>\<open>int\<close>; \<open>str\<close> is \<^typ>\<open>string\<close>, one \<^typ>\<open>char\<close> per code
  point, so the text handled here is text whose code points are below 256.  An exception
  that leaves a function is the left summand of its result; where the function has
  changed a store before raising, the exception is returned beside the store.  The
  platform is POSIX: the path separator is the slash and a newline is written as it is.
\<close>

datatype py_error =
    KeyError string
  | ZeroDivisionError
  | ValueError
  | AttributeError
  | FileNotFoundError string
  | UnicodeDecodeError
  | ParamValidationError
  | KeyTooLongError
  | NoSuchKey string

text \<open>
  \<open>xs[:stop]\<close>: a negative stop counts from the end, and the bounds are clamped to the
  list.
\<close>

definition py_slice_to :: "'a list \<Rightarrow> int \<Rightarrow> 'a list" where
  "py_slice_to xs stop =
     (let n = int (length xs);
          j = (if stop < 0 then max 0 (n + stop) else min n stop)
      in take (nat j) xs)"

text \<open>\<open>xs[start:stop]\<close>, with the same treatment of both bounds.\<close>

definition py_slice :: "'a list \<Rightarrow> int \<Rightarrow> int \<Rightarrow> 'a list" where
  "py_slice xs start stop =
     (let n = int (length xs);
          i = (if start < 0 then max 0 (n + start) else min n start);
          j = (if stop < 0 then max 0 (n + stop) else min n stop)
      in take (nat (j - i)) (drop (nat i) xs))"

text \<open>
  The values of \<open>range(start, stop, step)\<close>: upwards for a positive step, downwards for a
  negative one, and \<open>ValueError\<close> for step 0.
\<close>

function range_up :: "int \<Rightarrow> int \<Rightarrow> int \<Rightarrow> int list" where
  "range_up i stop step =
     (if 0 < step \<and> i < stop then i # range_up (i + step) stop step else [])"
  by pat_completeness auto
termination
  by (relation "measure (\<lambda>(i, stop, step). nat (stop - i))") auto

function range_down :: "int \<Rightarrow> int \<Rightarrow> int \<Rightarrow> int list" where
  "range_down i stop step =
     (if step < 0 \<and> stop < i then i # range_down (i + step) stop step else [])"
  by pat_completeness auto
termination
  by (relation "measure (\<lambda>(i, stop, step). nat (i - stop))") auto

declare range_up.simps [simp del] range_down.simps [simp del]

definition py_range :: "int \<Rightarrow> int \<Rightarrow> int \<Rightarrow> py_error + int list" where
  "py_range start stop step =
     (if step = 0 then Inl ValueError
      else if 0 < step then Inr (range_up start stop step)
      else Inr (range_down start stop step))"

text \<open>\<open>s.split(sep)[-1]\<close> for a one-character separator: the text after its last occurrence.\<close>

definition split_last :: "char \<Rightarrow> string \<Rightarrow> string" where
  "split_last sep s = rev (takeWhile (\<lambda>c. c \<noteq> sep) (rev s))"

text \<open>
  \<open>s.split(sep)[0]\<close> for a non-empty separator: the text before the first occurrence of
  \<open>sep\<close>, all of \<open>s\<close> when there is none.
\<close>

fun split_first :: "string \<Rightarrow> string \<Rightarrow> string" where
  "split_first sep [] = []"
| "split_first sep (c # cs) =
     (if prefix sep (c # cs) then [] else c # split_first sep cs)"

text \<open>\<open>s.endswith(suf)\<close> and \<open>sub in s\<close> on strings.\<close>

definition endswith :: "string \<Rightarrow> string \<Rightarrow> bool" where
  "endswith s suf = suffix suf s"

definition contains :: "string \<Rightarrow> string \<Rightarrow> bool" where
  "contains s sub = sublist sub s"

text \<open>
  \<open>str.strip()\<close> removes the whitespace of \<open>str.isspace\<close> from both ends; below 256 that
  is 9 to 13, 28 to 32, 133 and 160.
\<close>

definition is_space :: "char \<Rightarrow> bool" where
  "is_space c =
     (let n = (of_char c :: nat)
      in (9 \<le> n \<and> n \<le> 13) \<or> (28 \<le> n \<and> n \<le> 32) \<or> n = 133 \<or> n = 160)"

definition strip :: "string \<Rightarrow> string" where
  "strip s = rev (dropWhile is_space (rev (dropWhile is_space s)))"

text \<open>
  Reading a text file: \<open>open(name, "r")\<close> translates \<open>\r\n\<close> and \<open>\r\<close> to \<open>\n\<close>, and
  iterating the file (or \<open>readlines\<close>) yields each line with its newline, the last line
  without one when the file does not end in a newline.
\<close>

fun universal_newlines :: "string \<Rightarrow> string" where
  "universal_newlines [] = []"
| "universal_newlines [c] = (if c = CHR 0x0D then [CHR 0x0A] else [c])"
| "universal_newlines (c # d # cs) =
     (if c = CHR 0x0D \<and> d = CHR 0x0A then CHR 0x0A # universal_newlines cs
      else if c = CHR 0x0D then CHR 0x0A # universal_newlines (d # cs)
      else c # universal_newlines (d # cs))"

fun split_lines :: "string \<Rightarrow> string \<Rightarrow> string list" where
  "split_lines acc [] = (if acc = [] then [] else [acc])"
| "split_lines acc (c # cs) =
     (if c = CHR 0x0A then (acc @ [c]) # split_lines [] cs
      else split_lines (acc @ [c]) cs)"

definition file_lines :: "string \<Rightarrow> string list" where
  "file_lines content = split_lines [] (universal_newlines content)"

text \<open>
  The local files the program opens by name: a map from file name to text.  A name
  outside the domain is a file that does not exist.
\<close>

type_synonym files = "string \<rightharpoonup> string"

section \<open>The failure-membership check\<close>

text \<open>
  A value that is a string or Python's \<open>None\<close>: \<open>csv.DictReader\<close> fills the fields that
  a short row lacks with \<open>None\<close>, so both the subject and the location of a row are such
  values.

  \<open>file_in_failed\<close>: the loop over the lines of \<open>failed.txt\<close> returns at the first line
  whose stripped text equals the subject; no line equals \<open>None\<close>.
\<close>

datatype cell = Text string | PyNone

fun scan_lines :: "string list \<Rightarrow> cell \<Rightarrow> bool" where
  "scan_lines [] subject = False"
| "scan_lines (line # rest) subject =
     (if Text (strip line) = subject then True else scan_lines rest subject)"

definition file_in_failed :: "files \<Rightarrow> cell \<Rightarrow> py_error + bool" where
  "file_in_failed fs subject =
     (case fs ''failed.txt'' of
        None \<Rightarrow> Inl (FileNotFoundError ''failed.txt'')
      | Some content \<Rightarrow> Inr (scan_lines (file_lines content) subject))"

section \<open>The batch selector\<close>

text \<open>
  A manifest row as \<open>csv.DictReader\<close> yields it: a dictionary from column name to a
  string or \<open>None\<close>.  \<open>row['Subject']\<close> raises \<open>KeyError\<close> when the header has no such
  column, and is \<open>None\<close> when the row is too short to reach the column.  The fields
  of a row that is longer than the header are kept under the key \<open>None\<close>, which the
  program never reads.  The manifest is the list of its rows in file order.

  \<open>get_subject_completed_set(outbucket)\<close> lists the output bucket; its result, a set of
  strings, enters the model as \<open>completed\<close>.  The notices printed for skipped rows are not
  part of the model.

  The loop of \<open>resolve_inputs\<close>: \<open>row_step\<close> is the body of one iteration up to the
  test against \<open>batch_size\<close>, \<open>locations\<close> is the accumulator, and the test is made at the
  end of every iteration, after the row has been appended or skipped.
\<close>

type_synonym row = "string \<rightharpoonup> cell"

definition in_set :: "cell \<Rightarrow> string set \<Rightarrow> bool" where
  "in_set v S = (case v of Text s \<Rightarrow> s \<in> S | PyNone \<Rightarrow> False)"

definition row_step ::
  "files \<Rightarrow> string set \<Rightarrow> bool \<Rightarrow> row \<Rightarrow> cell list \<Rightarrow> py_error + cell list"
where
  "row_step fs completed_set exclude_failed row locations =
     (case row ''Subject'' of
        None \<Rightarrow> Inl (KeyError ''Subject'')
      | Some subject \<Rightarrow>
          if \<not> in_set subject completed_set then
            (case row ''location'' of
               None \<Rightarrow> Inl (KeyError ''location'')
             | Some location \<Rightarrow>
                 (case (if exclude_failed then file_in_failed fs subject else Inr False) of
                    Inl e \<Rightarrow> Inl e
                  | Inr failed \<Rightarrow>
                      if failed then Inr locations else Inr (locations @ [location])))
          else Inr locations)"

fun scan_rows ::
  "files \<Rightarrow> string set \<Rightarrow> bool \<Rightarrow> int \<Rightarrow> row list \<Rightarrow> cell list \<Rightarrow> py_error + cell list"
where
  "scan_rows fs completed_set exclude_failed batch_size [] locations = Inr locations"
| "scan_rows fs completed_set exclude_failed batch_size (row # rest) locations =
     (case row_step fs completed_set exclude_failed row locations of
        Inl e \<Rightarrow> Inl e
      | Inr locations' \<Rightarrow>
          if int (length locations') = batch_size then Inr locations'
          else scan_rows fs completed_set exclude_failed batch_size rest locations')"

text \<open>
  \<open>[loc.split("/")[-1] for loc in locations]\<close> raises \<open>AttributeError\<close> at a location
  that is \<open>None\<close>; \<open>texts\<close> is the list of strings when every element is one.
\<close>

fun texts :: "cell list \<Rightarrow> string list option" where
  "texts [] = Some []"
| "texts (Text s # rest) = map_option (\<lambda>ss. s # ss) (texts rest)"
| "texts (PyNone # rest) = None"

definition resolve_inputs ::
  "files \<Rightarrow> row list \<Rightarrow> int \<Rightarrow> string set \<Rightarrow> int \<Rightarrow> bool \<Rightarrow> bool
     \<Rightarrow> py_error + (string list \<times> string list)"
where
  "resolve_inputs fs rows batch_size completed cores_per_inst allow_existing exclude_failed =
     (let completed_set = (if \<not> allow_existing then completed else {})
      in case scan_rows fs completed_set exclude_failed batch_size rows [] of
           Inl e \<Rightarrow> Inl e
         | Inr locations \<Rightarrow>
             if cores_per_inst = 0 then Inl ZeroDivisionError
             else
               (let n = int (length locations);
                    locations' = py_slice_to locations (n - n mod cores_per_inst)
                in case texts locations' of
                     None \<Rightarrow> Inl AttributeError
                   | Some locs \<Rightarrow> Inr (locs, map (split_last CHR ''/'') locs)))"

section \<open>The grouping engine\<close>

text \<open>
  \<open>prepend_path\<close> and \<open>basename\<close> recurse over a value that is either a string or a list
  of such values.
\<close>

datatype nested = Str string | Lst "nested list"

fun prepend_path :: "nested \<Rightarrow> string \<Rightarrow> nested" where
  "prepend_path (Str s) path = Str (path @ s)"
| "prepend_path (Lst items) path = Lst (map (\<lambda>item. prepend_path item path) items)"

text \<open>
  \<open>os.path.basename\<close> on POSIX is the text after the last slash.  \<open>os.path.splitext\<close>
  cuts at the last dot, provided that dot comes after the last slash and some character
  between the two is not a dot; \<open>rfind\<close> is \<open>str.rfind\<close> for one character.
\<close>

definition rfind :: "char \<Rightarrow> string \<Rightarrow> int" where
  "rfind c s =
     (if c \<in> set s
      then int (length s) - 1 - int (length (takeWhile (\<lambda>d. d \<noteq> c) (rev s)))
      else - 1)"

definition splitext_root :: "string \<Rightarrow> string" where
  "splitext_root p =
     (let sepIndex = rfind CHR ''/'' p;
          dotIndex = rfind CHR ''.'' p
      in if sepIndex < dotIndex
            \<and> list_ex (\<lambda>c. c \<noteq> CHR ''.'') (py_slice p (sepIndex + 1) dotIndex)
         then py_slice_to p dotIndex
         else p)"

fun basename :: "nested \<Rightarrow> nested" where
  "basename (Str s) = Str (splitext_root (split_last CHR ''/'' s))"
| "basename (Lst items) = Lst (map basename items)"

text \<open>
  \<open>get_filetype\<close> comes from the module \<open>filetypes\<close>, which is not part of helpers.py: it
  maps the file names to a type tag and an index extension, which is \<open>None\<close> or a
  string, or it raises.  It is a parameter of \<open>group_inputs\<close>.  \<open>if idx_ext\<close> holds for a
  non-empty string only.
\<close>

definition truthy :: "string option \<Rightarrow> bool" where
  "truthy v = (case v of None \<Rightarrow> False | Some s \<Rightarrow> s \<noteq> [])"

definition chunks :: "string list \<Rightarrow> int \<Rightarrow> int list \<Rightarrow> nested" where
  "chunks names items_per_list starts =
     Lst (map (\<lambda>i. Lst (map Str (py_slice names i (i + items_per_list)))) starts)"

definition group_inputs ::
  "(string list \<Rightarrow> py_error + (string \<times> string option)) \<Rightarrow> string list \<Rightarrow> int
     \<Rightarrow> py_error + (nested \<times> nested \<times> nested option)"
where
  "group_inputs get_filetype filenames items_per_list =
     (case get_filetype filenames of
        Inl e \<Rightarrow> Inl e
      | Inr (ftype, idx_ext) \<Rightarrow>
          (case py_range 0 (int (length filenames)) items_per_list of
             Inl e \<Rightarrow> Inl e
           | Inr starts \<Rightarrow>
               (let grouped_inputs = chunks filenames items_per_list starts;
                    grouped_input_paths = prepend_path grouped_inputs (ftype @ ''s/'');
                    subjects = basename grouped_inputs
                in if truthy idx_ext then
                     (let idx_filenames =
                            map (\<lambda>file. file @ ''.'' @ (case idx_ext of Some e \<Rightarrow> e | None \<Rightarrow> []))
                              filenames;
                          grouped_idx = chunks idx_filenames items_per_list starts;
                          grouped_idx_paths = prepend_path grouped_idx (ftype @ ''sidx/'')
                      in Inr (subjects, grouped_input_paths, Some grouped_idx_paths))
                   else Inr (subjects, grouped_input_paths, None))))"

section \<open>The run auditor\<close>

text \<open>
  The output bucket: an association list from object key to object body, keys distinct
  and valid.  A body is the text its bytes decode to as UTF-8, or \<open>None\<close> when they do
  not decode.  A key is valid when it is not empty and its UTF-8 encoding has at most
  1024 bytes; a code point below 128 takes one byte, one from 128 to 255 two.

  \<open>list_objects_v2\<close> answers with one page: the keys that start with the prefix, in
  ascending order, at most 1000 of them.  The program never asks for a second page.
  \<open>response.get('Contents', [])\<close> and the test \<open>'Contents' in response\<close> make an answer
  without keys an empty list.

  The client refuses an empty key before any request is sent; the service refuses a
  key that is too long; \<open>get_object\<close> and \<open>copy_object\<close> fail on a source that is not
  there; \<open>delete_object\<close> of a key that is not there succeeds.  Failures of the
  connection are not part of the model.
\<close>

type_synonym body = "string option"

type_synonym bucket = "(string \<times> body) list"

definition utf8_length :: "string \<Rightarrow> nat" where
  "utf8_length key = sum_list (map (\<lambda>c. if (of_char c :: nat) < 128 then 1 else 2) key)"

definition check_key :: "string \<Rightarrow> py_error option" where
  "check_key key =
     (if key = [] then Some ParamValidationError
      else if 1024 < utf8_length key then Some KeyTooLongError
      else None)"

definition list_objects_v2 :: "bucket \<Rightarrow> string \<Rightarrow> string list" where
  "list_objects_v2 b pfx = take 1000 (sort (remdups (filter (prefix pfx) (map fst b))))"

definition get_object :: "bucket \<Rightarrow> string \<Rightarrow> py_error + body" where
  "get_object b key =
     (if key = [] then Inl ParamValidationError
      else case map_of b key of None \<Rightarrow> Inl (NoSuchKey key) | Some body \<Rightarrow> Inr body)"

definition put_object :: "bucket \<Rightarrow> string \<Rightarrow> py_error + bucket" where
  "put_object b key =
     (case check_key key of
        Some e \<Rightarrow> Inl e
      | None \<Rightarrow> Inr (AList.update key (Some []) b))"

definition copy_object :: "bucket \<Rightarrow> string \<Rightarrow> string \<Rightarrow> py_error + bucket" where
  "copy_object b new_key source_key =
     (case check_key new_key of
        Some e \<Rightarrow> Inl e
      | None \<Rightarrow>
          (case map_of b source_key of
             None \<Rightarrow> Inl (NoSuchKey source_key)
           | Some body \<Rightarrow> Inr (AList.update new_key body b)))"

definition delete_object :: "bucket \<Rightarrow> string \<Rightarrow> py_error + bucket" where
  "delete_object b key =
     (if key = [] then Inl ParamValidationError else Inr (AList.delete key b))"

text \<open>
  \<open>move_logs_to_root\<close>: every listed object is copied to its base name and deleted.  An
  exception ends the loop and leaves the bucket as the steps before it made it.
\<close>

fun move_to_root_loop :: "string list \<Rightarrow> bucket \<Rightarrow> py_error option \<times> bucket" where
  "move_to_root_loop [] b = (None, b)"
| "move_to_root_loop (file_name # rest) b =
     (case copy_object b (split_last CHR ''/'' file_name) file_name of
        Inl e \<Rightarrow> (Some e, b)
      | Inr b' \<Rightarrow>
          (case delete_object b' file_name of
             Inl e \<Rightarrow> (Some e, b')
           | Inr b'' \<Rightarrow> move_to_root_loop rest b''))"

definition move_logs_to_root :: "string \<Rightarrow> bucket \<Rightarrow> py_error option \<times> bucket" where
  "move_logs_to_root jobid_prefix b =
     move_to_root_loop (list_objects_v2 b (jobid_prefix @ ''/'' @ jobid_prefix @ ''.'')) b"

text \<open>
  \<open>move_logs_to_folder\<close>: the folder marker is put first, then every listed object is
  copied under the folder and deleted.
\<close>

fun move_to_folder_loop :: "string \<Rightarrow> string list \<Rightarrow> bucket \<Rightarrow> py_error option \<times> bucket" where
  "move_to_folder_loop jobid_prefix [] b = (None, b)"
| "move_to_folder_loop jobid_prefix (file_name # rest) b =
     (case copy_object b (jobid_prefix @ ''/'' @ file_name) file_name of
        Inl e \<Rightarrow> (Some e, b)
      | Inr b' \<Rightarrow>
          (case delete_object b' file_name of
             Inl e \<Rightarrow> (Some e, b')
           | Inr b'' \<Rightarrow> move_to_folder_loop jobid_prefix rest b''))"

definition move_logs_to_folder :: "string \<Rightarrow> bucket \<Rightarrow> py_error option \<times> bucket" where
  "move_logs_to_folder jobid_prefix b =
     (case put_object b (jobid_prefix @ ''/'') of
        Inl e \<Rightarrow> (Some e, b)
      | Inr b1 \<Rightarrow> move_to_folder_loop jobid_prefix (list_objects_v2 b1 (jobid_prefix @ ''.'')) b1)"

text \<open>
  The scan of the status descriptors in \<open>process_postrun_files\<close>.  The marker is the
  text \<open>"md5sum":"\<close>, double quotes included.  The set
  \<open>failed_job_ids\<close> is held as the list of the identifiers added, in the order of adding;
  its duplicates are dropped where the set is iterated.
\<close>

definition md5sum_marker :: string where
  \<open>md5sum_marker = ''"md5sum":"''\<close>

fun scan_postrun :: "bucket \<Rightarrow> string list \<Rightarrow> string list \<Rightarrow> py_error + string list" where
  "scan_postrun b [] failed_job_ids = Inr failed_job_ids"
| "scan_postrun b (key # rest) failed_job_ids =
     (if endswith key ''.postrun.json'' then
        (case get_object b key of
           Inl e \<Rightarrow> Inl e
         | Inr None \<Rightarrow> Inl UnicodeDecodeError
         | Inr (Some content) \<Rightarrow>
             if \<not> contains content md5sum_marker
             then scan_postrun b rest (failed_job_ids @ [split_first ''.postrun.json'' key])
             else scan_postrun b rest failed_job_ids)
      else scan_postrun b rest failed_job_ids)"

text \<open>
  Python does not fix the order in which a set is iterated.  \<open>set_iter rank\<close> is an
  iteration of the set of the elements of a list: each element once, in ascending order
  of \<open>rank\<close>, a parameter; every order of iteration is the one of some \<open>rank\<close>.

  Appending to a file creates it when it does not exist.
\<close>

definition set_iter :: "(string \<Rightarrow> nat) \<Rightarrow> string list \<Rightarrow> string list" where
  "set_iter rank xs = sort_key rank (remdups xs)"

definition file_text :: "files \<Rightarrow> string \<Rightarrow> string" where
  "file_text fs name = (case fs name of None \<Rightarrow> [] | Some old \<Rightarrow> old)"

definition process_postrun_files ::
  "(string \<Rightarrow> nat) \<Rightarrow> (string \<Rightarrow> nat) \<Rightarrow> string \<Rightarrow> bucket \<times> files
     \<Rightarrow> py_error option \<times> bucket \<times> files"
where
  "process_postrun_files rank_ids rank_lines jobid_prefix st =
     (case st of
        (outbucket, fs) \<Rightarrow>
          (case move_logs_to_root jobid_prefix outbucket of
             (Some e, b1) \<Rightarrow> (Some e, b1, fs)
           | (None, b1) \<Rightarrow>
               (case scan_postrun b1 (list_objects_v2 b1 (jobid_prefix @ ''.'')) [] of
                  Inl e \<Rightarrow> (Some e, b1, fs)
                | Inr failed_job_ids \<Rightarrow>
                    (let appended = file_text fs ''failed_runs.txt''
                                      @ concat (map (\<lambda>job_id. job_id @ [CHR 0x0A])
                                                  (set_iter rank_ids failed_job_ids));
                         lines = file_lines appended;
                         fs' = fs(''failed_runs.txt'' \<mapsto> concat (set_iter rank_lines lines))
                     in case move_logs_to_folder jobid_prefix b1 of
                          (e, b2) \<Rightarrow> (e, b2, fs')))))"

section \<open>Notions of the specification\<close>

text \<open>
  The selection the specification describes for the batch selector: a row is skipped
  when its subject is in the completed set, or when failures are excluded and its
  subject is recorded in the ledger; the locations of the other rows are taken in
  manifest order.  A subject is recorded in the ledger when it equals a line of the
  ledger with the whitespace at both ends of the line removed.  \<open>field\<close> reads a column
  of a row that has it.
\<close>

definition field :: "row \<Rightarrow> string \<Rightarrow> cell" where
  "field row name = (case row name of Some v \<Rightarrow> v | None \<Rightarrow> PyNone)"

definition has_columns :: "row list \<Rightarrow> bool" where
  "has_columns rows =
     list_all (\<lambda>row. row ''Subject'' \<noteq> None \<and> row ''location'' \<noteq> None) rows"

definition ledger_available :: "files \<Rightarrow> bool \<Rightarrow> bool" where
  "ledger_available fs exclude_failed =
     (if exclude_failed then fs ''failed.txt'' \<noteq> None else True)"

definition in_ledger :: "string \<Rightarrow> string \<Rightarrow> bool" where
  "in_ledger ledger subject = list_ex (\<lambda>line. strip line = subject) (file_lines ledger)"

definition excluded :: "string set \<Rightarrow> bool \<Rightarrow> string \<Rightarrow> cell \<Rightarrow> bool" where
  "excluded completed_set exclude_failed ledger subject =
     (case subject of
        PyNone \<Rightarrow> False
      | Text s \<Rightarrow> s \<in> completed_set \<or> (exclude_failed \<and> in_ledger ledger s))"

definition selection :: "string set \<Rightarrow> bool \<Rightarrow> string \<Rightarrow> row list \<Rightarrow> cell list" where
  "selection completed_set exclude_failed ledger rows =
     map (\<lambda>row. field row ''location'')
       (filter (\<lambda>row. \<not> excluded completed_set exclude_failed ledger (field row ''Subject''))
          rows)"

text \<open>
  The lines of the ledger as the text between the newlines, without the newline, for
  the reading of membership that compares whole lines exactly.
\<close>

definition exact_lines :: "string \<Rightarrow> string list" where
  "exact_lines ledger =
     map (\<lambda>line. if line \<noteq> [] \<and> last line = CHR 0x0A then butlast line else line)
       (file_lines ledger)"

text \<open>
  Reading a returned value as a list of groups of strings; \<open>None\<close> when it is not a list
  of lists of strings.  \<open>removeprefix\<close> strips a path prefix, \<open>removesuffix\<close> a suffix.
\<close>

fun as_strings :: "nested list \<Rightarrow> string list option" where
  "as_strings [] = Some []"
| "as_strings (Str s # rest) = map_option (\<lambda>ss. s # ss) (as_strings rest)"
| "as_strings (Lst items # rest) = None"

fun as_groups_list :: "nested list \<Rightarrow> string list list option" where
  "as_groups_list [] = Some []"
| "as_groups_list (Lst items # rest) =
     (case as_strings items of
        None \<Rightarrow> None
      | Some g \<Rightarrow> map_option (\<lambda>gs. g # gs) (as_groups_list rest))"
| "as_groups_list (Str s # rest) = None"

fun as_groups :: "nested \<Rightarrow> string list list option" where
  "as_groups (Lst groups) = as_groups_list groups"
| "as_groups (Str s) = None"

text \<open>
  The groups of a chunking: the slices of the names that start at the given indices.
\<close>

definition groups_of :: "string list \<Rightarrow> int \<Rightarrow> int list \<Rightarrow> string list list" where
  "groups_of names k starts = map (\<lambda>i. py_slice names i (i + k)) starts"


definition removesuffix :: "string \<Rightarrow> string \<Rightarrow> string" where
  "removesuffix sfx s = (if suffix sfx s then take (length s - length sfx) s else s)"

section \<open>Concrete inputs\<close>

definition mk_row :: "string \<Rightarrow> string \<Rightarrow> row" where
  "mk_row location subject = [''location'' \<mapsto> Text location, ''Subject'' \<mapsto> Text subject]"

definition example_manifest :: "row list" where
  "example_manifest =
     [mk_row ''s3://b/crams/ABC-RS1.cram'' ''ABC-RS1'',
      mk_row ''s3://b/crams/DEF-RS2.cram'' ''DEF-RS2'',
      mk_row ''s3://b/crams/GHI-RS3.cram'' ''GHI-RS3'']"

definition example_ledger :: files where
  "example_ledger = [''failed.txt'' \<mapsto> ''DEF-RS2'' @ [CHR 0x0A]]"

definition example_root_bucket :: bucket where
  \<open>example_root_bucket =
     [(''job1.a.postrun.json'', Some ''{"other":1}''),
      (''job1.b.postrun.json'', Some ''{"md5sum":"abc123"}''),
      (''job1.log'', Some ''started'')]\<close>

definition adding_order :: "string \<Rightarrow> nat" where
  "adding_order s = 0"

definition example_files :: files where
  "example_files = [''failed.txt'' \<mapsto> []]"

definition cram_filetype :: "string list \<Rightarrow> py_error + (string \<times> string option)" where
  "cram_filetype names = Inr (''cram'', Some ''crai'')"

definition example_bucket :: bucket where
  \<open>example_bucket =
     [(''job1/job1.a.postrun.json'', Some ''{"other":1}''),
      (''job1/job1.b.postrun.json'', Some ''{"md5sum":"abc123"}''),
      (''job1/job1.log'', Some ''started'')]\<close>

definition example_audit :: "py_error option \<times> bucket \<times> files" where
  "example_audit =
     process_postrun_files adding_order adding_order ''job1'' (example_bucket, example_files)"

section \<open>Slices and the remainder rule\<close>

lemma texts_eq_Some: "texts xs = Some ys \<longleftrightarrow> xs = map Text ys"
proof (induction xs arbitrary: ys)
  case Nil
  then show ?case by auto
next
  case (Cons x xs)
  show ?case
  proof (cases x)
    case (Text s)
    with Cons show ?thesis by (cases ys) auto
  next
    case PyNone
    then show ?thesis by (cases ys) auto
  qed
qed

lemma texts_map_Text: "texts (map Text ys) = Some ys"
  by (simp add: texts_eq_Some)

lemma py_slice_to_positive:
  assumes "0 < c"
  shows "py_slice_to xs (int (length xs) - int (length xs) mod c) =
           take (nat (int (length xs) div c * c)) xs"
proof -
  let ?n = "int (length xs)"
  have eq: "?n - ?n mod c = ?n div c * c"
    by (simp add: minus_mod_eq_div_mult)
  have "0 \<le> ?n mod c" using assms by simp
  then have le: "?n - ?n mod c \<le> ?n" by simp
  have "0 \<le> ?n div c" using assms by (simp add: pos_imp_zdiv_nonneg_iff)
  then have ge: "0 \<le> ?n div c * c" using assms by simp
  show ?thesis
    using le ge eq by (simp add: py_slice_to_def Let_def min_def)
qed

lemma py_slice_to_negative:
  assumes "c < 0"
  shows "py_slice_to xs (int (length xs) - int (length xs) mod c) = xs"
proof -
  let ?n = "int (length xs)"
  have "?n mod c \<le> 0" using assms by simp
  then have "?n \<le> ?n - ?n mod c" by simp
  then show ?thesis
    by (simp add: py_slice_to_def Let_def min_def)
qed

lemma length_py_slice_to_le: "length (py_slice_to xs stop) \<le> length xs"
  by (simp add: py_slice_to_def Let_def)


lemma multiple_prefix_length:
  assumes "0 < c"
  shows "int (length (take (nat (int (length xs) div c * c)) xs)) = int (length xs) div c * c"
proof -
  let ?n = "int (length xs)"
  have "0 \<le> ?n div c" using assms by (simp add: pos_imp_zdiv_nonneg_iff)
  then have ge: "0 \<le> ?n div c * c" using assms by simp
  have "?n div c * c = ?n - ?n mod c" by (simp add: minus_mod_eq_div_mult)
  moreover have "0 \<le> ?n mod c" using assms by simp
  ultimately have "?n div c * c \<le> ?n" by simp
  with ge show ?thesis by simp
qed

section \<open>The scan of the manifest\<close>

lemma scan_lines_Text: "scan_lines lines (Text s) = list_ex (\<lambda>line. strip line = s) lines"
  by (induction lines) auto

lemma scan_lines_PyNone: "scan_lines lines PyNone = False"
  by (induction lines) auto

lemma file_in_failed_in_ledger:
  "fs ''failed.txt'' = Some ledger \<Longrightarrow>
   file_in_failed fs subject =
     Inr (case subject of PyNone \<Rightarrow> False | Text s \<Rightarrow> in_ledger ledger s)"
  by (cases subject) (simp_all add: file_in_failed_def in_ledger_def scan_lines_Text
        scan_lines_PyNone)

lemma row_step_cases:
  assumes "row_step fs cs ef row acc = Inr acc'"
  shows "acc' = acc
       \<or> (\<exists>subject location. row ''Subject'' = Some subject \<and> row ''location'' = Some location
             \<and> \<not> in_set subject cs
             \<and> (if ef then file_in_failed fs subject else Inr False) = Inr False
             \<and> acc' = acc @ [location])"
proof (cases "row ''Subject''")
  case None
  with assms show ?thesis by (simp add: row_step_def)
next
  case subj: (Some subject)
  show ?thesis
  proof (cases "in_set subject cs")
    case True
    with assms subj show ?thesis by (simp add: row_step_def)
  next
    case nc: False
    show ?thesis
    proof (cases "row ''location''")
      case None
      with assms subj nc show ?thesis by (simp add: row_step_def)
    next
      case loc: (Some location)
      show ?thesis
      proof (cases "if ef then file_in_failed fs subject else Inr False")
        case (Inl e)
        with assms subj nc loc show ?thesis by (simp add: row_step_def)
      next
        case (Inr failed)
        show ?thesis
        proof (cases failed)
          case True
          with assms subj nc loc Inr show ?thesis by (simp add: row_step_def)
        next
          case False
          with assms subj nc loc Inr have "acc' = acc @ [location]"
            by (simp add: row_step_def)
          moreover from Inr False
          have "(if ef then file_in_failed fs subject else Inr False) = Inr False" by simp
          ultimately show ?thesis using subj nc loc by blast
        qed
      qed
    qed
  qed
qed

lemma row_step_selection:
  assumes "row ''Subject'' \<noteq> None" and "row ''location'' \<noteq> None"
    and "ledger_available fs ef"
  shows "row_step fs cs ef row acc =
           Inr (if excluded cs ef (file_text fs ''failed.txt'') (field row ''Subject'')
                then acc else acc @ [field row ''location''])"
proof -
  from assms(1) obtain subject where subj: "row ''Subject'' = Some subject" by blast
  from assms(2) obtain location where loc: "row ''location'' = Some location" by blast
  show ?thesis
  proof (cases subject)
    case PyNone
    show ?thesis
    proof (cases ef)
      case True
      with assms(3) obtain ledger where l: "fs ''failed.txt'' = Some ledger"
        by (auto simp: ledger_available_def)
      with subj loc PyNone True show ?thesis
        by (simp add: row_step_def field_def excluded_def in_set_def
              file_in_failed_in_ledger [where fs = fs and ledger = ledger])
    next
      case False
      with subj loc PyNone show ?thesis
        by (simp add: row_step_def field_def excluded_def in_set_def)
    qed
  next
    case (Text s)
    show ?thesis
    proof (cases ef)
      case True
      with assms(3) obtain ledger where l: "fs ''failed.txt'' = Some ledger"
        by (auto simp: ledger_available_def)
      with subj loc Text True show ?thesis
        by (simp add: row_step_def field_def excluded_def in_set_def file_text_def
              file_in_failed_in_ledger [where fs = fs and ledger = ledger])
    next
      case False
      with subj loc Text show ?thesis
        by (simp add: row_step_def field_def excluded_def in_set_def)
    qed
  qed
qed

lemma scan_rows_Cons:
  "row_step fs cs ef row acc = Inr acc' \<Longrightarrow>
   scan_rows fs cs ef batch_size (row # rest) acc =
     (if int (length acc') = batch_size then Inr acc'
      else scan_rows fs cs ef batch_size rest acc')"
  by simp

lemma scan_rows_Cons_Inr:
  assumes "scan_rows fs cs ef batch_size (row # rest) acc = Inr out"
  shows "\<exists>acc'. row_step fs cs ef row acc = Inr acc'
           \<and> (if int (length acc') = batch_size then out = acc'
               else scan_rows fs cs ef batch_size rest acc' = Inr out)"
proof (cases "row_step fs cs ef row acc")
  case (Inl e)
  with assms show ?thesis by simp
next
  case (Inr acc')
  with assms show ?thesis by (cases "int (length acc') = batch_size") simp_all
qed

lemma scan_rows_bound:
  "int (length acc) < batch_size \<Longrightarrow>
   scan_rows fs cs ef batch_size rows acc = Inr out \<Longrightarrow>
   int (length out) \<le> batch_size"
proof (induction rows arbitrary: acc)
  case Nil
  then show ?case by simp
next
  case (Cons row rest)
  from scan_rows_Cons_Inr [OF Cons.prems(2)] obtain acc' where
      step: "row_step fs cs ef row acc = Inr acc'"
    and cont: "if int (length acc') = batch_size then out = acc'
               else scan_rows fs cs ef batch_size rest acc' = Inr out"
    by blast
  from row_step_cases [OF step] have "length acc' \<le> Suc (length acc)" by auto
  with Cons.prems(1) have le: "int (length acc') \<le> batch_size" by simp
  show ?case
  proof (cases "int (length acc') = batch_size")
    case True
    with cont show ?thesis by simp
  next
    case False
    with le have "int (length acc') < batch_size" by simp
    moreover from cont False have "scan_rows fs cs ef batch_size rest acc' = Inr out" by simp
    ultimately show ?thesis by (rule Cons.IH)
  qed
qed

lemma scan_rows_selection:
  "has_columns rows \<Longrightarrow> ledger_available fs ef \<Longrightarrow> int (length acc) < batch_size \<Longrightarrow>
   scan_rows fs cs ef batch_size rows acc =
     Inr (take (nat batch_size) (acc @ selection cs ef (file_text fs ''failed.txt'') rows))"
proof (induction rows arbitrary: acc)
  case Nil
  then show ?case by (simp add: selection_def)
next
  case (Cons row rest)
  let ?ledger = "file_text fs ''failed.txt''"
  let ?skip = "excluded cs ef ?ledger (field row ''Subject'')"
  let ?acc' = "if ?skip then acc else acc @ [field row ''location'']"
  from Cons.prems(1) have cols: "row ''Subject'' \<noteq> None" "row ''location'' \<noteq> None"
    and rest: "has_columns rest"
    by (simp_all add: has_columns_def)
  have step: "row_step fs cs ef row acc = Inr ?acc'"
    using cols Cons.prems(2) by (rule row_step_selection)
  have sel: "acc @ selection cs ef ?ledger (row # rest) = ?acc' @ selection cs ef ?ledger rest"
    by (simp add: selection_def)
  have le: "int (length ?acc') \<le> batch_size"
    using Cons.prems(3) by simp
  show ?case
  proof (cases "int (length ?acc') = batch_size")
    case True
    then have "nat batch_size = length ?acc'" by simp
    then have "take (nat batch_size) (?acc' @ selection cs ef ?ledger rest) = ?acc'"
      by simp
    moreover have "scan_rows fs cs ef batch_size (row # rest) acc = Inr ?acc'"
      using scan_rows_Cons [OF step] True by simp
    ultimately show ?thesis using sel by simp
  next
    case False
    with le have lt: "int (length ?acc') < batch_size" by simp
    have "scan_rows fs cs ef batch_size (row # rest) acc =
            scan_rows fs cs ef batch_size rest ?acc'"
      using scan_rows_Cons [OF step] False by simp
    also have "\<dots> = Inr (take (nat batch_size) (?acc' @ selection cs ef ?ledger rest))"
      using rest Cons.prems(2) lt by (rule Cons.IH)
    finally show ?thesis using sel by simp
  qed
qed

lemma scan_rows_returns:
  "has_columns rows \<Longrightarrow> ledger_available fs ef \<Longrightarrow>
   \<exists>collected. scan_rows fs cs ef batch_size rows acc = Inr collected"
proof (induction rows arbitrary: acc)
  case Nil
  then show ?case by simp
next
  case (Cons row rest)
  from Cons.prems(1) have cols: "row ''Subject'' \<noteq> None" "row ''location'' \<noteq> None"
    and rest: "has_columns rest"
    by (simp_all add: has_columns_def)
  from row_step_selection [OF cols Cons.prems(2)]
  obtain acc' where step: "row_step fs cs ef row acc = Inr acc'" by blast
  show ?case
  proof (cases "int (length acc') = batch_size")
    case True
    with scan_rows_Cons [OF step] show ?thesis by simp
  next
    case False
    from Cons.IH [OF rest Cons.prems(2)]
    obtain collected where "scan_rows fs cs ef batch_size rest acc' = Inr collected" by blast
    with scan_rows_Cons [OF step] False show ?thesis by simp
  qed
qed




lemma resolve_inputs_after_scan:
  assumes "scan_rows fs (if \<not> allow_existing then completed else {}) exclude_failed batch_size
             rows [] = Inr collected"
    and "cores_per_inst \<noteq> 0"
  shows "resolve_inputs fs rows batch_size completed cores_per_inst allow_existing
           exclude_failed =
         (case texts (py_slice_to collected
                 (int (length collected) - int (length collected) mod cores_per_inst)) of
            None \<Rightarrow> Inl AttributeError
          | Some locations \<Rightarrow> Inr (locations, map (split_last CHR ''/'') locations))"
  using assms by (simp add: resolve_inputs_def Let_def)

lemma resolve_inputs_Inr_scan:
  assumes "resolve_inputs fs rows batch_size completed cores_per_inst allow_existing
             exclude_failed = Inr (locations, filenames)"
  shows "\<exists>collected.
           scan_rows fs (if \<not> allow_existing then completed else {}) exclude_failed batch_size
             rows [] = Inr collected
         \<and> cores_per_inst \<noteq> 0
         \<and> map Text locations = py_slice_to collected
              (int (length collected) - int (length collected) mod cores_per_inst)
         \<and> filenames = map (split_last CHR ''/'') locations"
proof (cases "scan_rows fs (if \<not> allow_existing then completed else {}) exclude_failed
                batch_size rows []")
  case (Inl e)
  with assms show ?thesis by (simp add: resolve_inputs_def Let_def)
next
  case (Inr collected)
  show ?thesis
  proof (cases "cores_per_inst = 0")
    case True
    with assms Inr show ?thesis by (simp add: resolve_inputs_def Let_def)
  next
    case False
    let ?kept = "py_slice_to collected
              (int (length collected) - int (length collected) mod cores_per_inst)"
    from resolve_inputs_after_scan [OF Inr False] assms
    have c: "(case texts ?kept of None \<Rightarrow> Inl AttributeError
          | Some locations \<Rightarrow> Inr (locations, map (split_last CHR ''/'') locations))
          = Inr (locations, filenames)" by simp
    then obtain locs where t: "texts ?kept = Some locs" by (cases "texts ?kept") simp_all
    with c have "locs = locations" "filenames = map (split_last CHR ''/'') locations" by auto
    moreover from t have "?kept = map Text locs" by (simp add: texts_eq_Some)
    ultimately show ?thesis using Inr False by simp
  qed
qed

section \<open>Properties of the batch selector\<close>

text \<open>
  C1.  Let \<open>cores_per_inst\<close> be positive.  When the scan of the manifest returns the list
  \<open>collected\<close>, the selector keeps the longest prefix of \<open>collected\<close> whose length is a
  multiple of \<open>cores_per_inst\<close>: the kept length is
  \<open>len(collected) div cores_per_inst * cores_per_inst\<close>, fewer than \<open>cores_per_inst\<close>
  locations are dropped, and \<open>resolve_inputs\<close> returns the kept locations with their last
  path segments, or raises \<open>AttributeError\<close> when a kept location is \<open>None\<close>.  Hence
  every list of locations that \<open>resolve_inputs\<close> returns has a length that is a multiple
  of \<open>cores_per_inst\<close>.  The scan returns for every manifest whose header has both
  columns, provided the ledger file exists when failures are excluded.
\<close>

theorem resolve_inputs_multiple_of_cores:
  assumes "0 < cores_per_inst"
  shows "(\<forall>collected.
            scan_rows fs (if \<not> allow_existing then completed else {}) exclude_failed
              batch_size rows [] = Inr collected \<longrightarrow>
            (let kept = take (nat (int (length collected) div cores_per_inst * cores_per_inst))
                          collected
             in int (length kept) = int (length collected) div cores_per_inst * cores_per_inst
              \<and> int (length kept) mod cores_per_inst = 0
              \<and> int (length collected) - int (length kept) < cores_per_inst
              \<and> resolve_inputs fs rows batch_size completed cores_per_inst allow_existing
                   exclude_failed =
                 (case texts kept of
                    None \<Rightarrow> Inl AttributeError
                  | Some locations \<Rightarrow> Inr (locations, map (split_last CHR ''/'') locations))))
       \<and> (\<forall>locations filenames.
            resolve_inputs fs rows batch_size completed cores_per_inst allow_existing
              exclude_failed = Inr (locations, filenames) \<longrightarrow>
            int (length locations) mod cores_per_inst = 0)
       \<and> (has_columns rows \<and> ledger_available fs exclude_failed \<longrightarrow>
            (\<exists>collected.
               scan_rows fs (if \<not> allow_existing then completed else {}) exclude_failed
                 batch_size rows [] = Inr collected))"
proof (intro conjI allI impI)
  fix collected
  assume scan: "scan_rows fs (if \<not> allow_existing then completed else {}) exclude_failed
              batch_size rows [] = Inr collected"
  let ?n = "int (length collected)"
  let ?kept = "take (nat (?n div cores_per_inst * cores_per_inst)) collected"
  have len: "int (length ?kept) = ?n div cores_per_inst * cores_per_inst"
    using assms by (rule multiple_prefix_length)
  have md: "int (length ?kept) mod cores_per_inst = 0"
    unfolding len by simp
  have "?n - ?n div cores_per_inst * cores_per_inst = ?n mod cores_per_inst"
    by (simp add: minus_div_mult_eq_mod)
  moreover have "?n mod cores_per_inst < cores_per_inst" using assms by simp
  ultimately have rest: "?n - int (length ?kept) < cores_per_inst"
    unfolding len by simp
  from assms have nz: "cores_per_inst \<noteq> 0" by simp
  have res: "resolve_inputs fs rows batch_size completed cores_per_inst allow_existing
                   exclude_failed =
                 (case texts ?kept of
                    None \<Rightarrow> Inl AttributeError
                  | Some locations \<Rightarrow> Inr (locations, map (split_last CHR ''/'') locations))"
    using resolve_inputs_after_scan [OF scan nz] py_slice_to_positive [OF assms, of collected]
    by simp
  from len md rest res
  show "let kept = ?kept
        in int (length kept) = ?n div cores_per_inst * cores_per_inst
         \<and> int (length kept) mod cores_per_inst = 0
         \<and> ?n - int (length kept) < cores_per_inst
         \<and> resolve_inputs fs rows batch_size completed cores_per_inst allow_existing
              exclude_failed =
            (case texts kept of
               None \<Rightarrow> Inl AttributeError
             | Some locations \<Rightarrow> Inr (locations, map (split_last CHR ''/'') locations))"
    unfolding Let_def by blast
next
  fix locations filenames
  assume "resolve_inputs fs rows batch_size completed cores_per_inst allow_existing
              exclude_failed = Inr (locations, filenames)"
  from resolve_inputs_Inr_scan [OF this] obtain collected where
    m: "map Text locations = py_slice_to collected
              (int (length collected) - int (length collected) mod cores_per_inst)"
    by blast
  have "length locations = length (map Text locations)" by simp
  also have "\<dots> = length (take (nat (int (length collected) div cores_per_inst
                       * cores_per_inst)) collected)"
    unfolding m py_slice_to_positive [OF assms] ..
  finally have "int (length locations) =
      int (length (take (nat (int (length collected) div cores_per_inst * cores_per_inst))
             collected))" by simp
  also have "\<dots> = int (length collected) div cores_per_inst * cores_per_inst"
    using assms by (rule multiple_prefix_length)
  finally show "int (length locations) mod cores_per_inst = 0" by simp
next
  assume "has_columns rows \<and> ledger_available fs exclude_failed"
  then show "\<exists>collected.
               scan_rows fs (if \<not> allow_existing then completed else {}) exclude_failed
                 batch_size rows [] = Inr collected"
    using scan_rows_returns by blast
qed

theorem resolve_inputs_multiple_of_cores_witness:
  "(0::int) < 2
   \<and> has_columns example_manifest \<and> ledger_available Map.empty False
   \<and> scan_rows Map.empty {} False 3 example_manifest [] =
       Inr [Text ''s3://b/crams/ABC-RS1.cram'', Text ''s3://b/crams/DEF-RS2.cram'',
            Text ''s3://b/crams/GHI-RS3.cram'']
   \<and> resolve_inputs Map.empty example_manifest 3 {} 2 False False =
       Inr ([''s3://b/crams/ABC-RS1.cram'', ''s3://b/crams/DEF-RS2.cram''],
            [''ABC-RS1.cram'', ''DEF-RS2.cram''])
   \<and> int (length [''s3://b/crams/ABC-RS1.cram'', ''s3://b/crams/DEF-RS2.cram'']) mod 2 = 0"
proof -
  have h1: "(0::int) < 2" by simp
  have h2: "has_columns example_manifest \<and> ledger_available Map.empty False" by code_simp
  have h3: "scan_rows Map.empty (if \<not> False then {} else {}) False 3 example_manifest [] =
       Inr [Text ''s3://b/crams/ABC-RS1.cram'', Text ''s3://b/crams/DEF-RS2.cram'',
            Text ''s3://b/crams/GHI-RS3.cram'']" by code_simp
  note t = resolve_inputs_multiple_of_cores [OF h1, where fs = Map.empty
      and allow_existing = False and completed = "{}" and exclude_failed = False
      and batch_size = 3 and rows = example_manifest]
  from t h3 have r: "resolve_inputs Map.empty example_manifest 3 {} 2 False False =
       Inr ([''s3://b/crams/ABC-RS1.cram'', ''s3://b/crams/DEF-RS2.cram''],
            [''ABC-RS1.cram'', ''DEF-RS2.cram''])"
    by (simp add: Let_def split_last_def)
  from t r have m: "int (length [''s3://b/crams/ABC-RS1.cram'', ''s3://b/crams/DEF-RS2.cram''])
      mod 2 = 0" by blast
  from h1 h2 h3 r m show ?thesis by simp
qed

lemma resolve_inputs_selection:
  assumes "1 \<le> batch_size" and "has_columns rows" and "ledger_available fs exclude_failed"
    and "cores_per_inst \<noteq> 0"
  shows "resolve_inputs fs rows batch_size completed cores_per_inst allow_existing
           exclude_failed =
         (let sel = take (nat batch_size)
                      (selection (if \<not> allow_existing then completed else {}) exclude_failed
                         (file_text fs ''failed.txt'') rows);
              kept = (if 0 < cores_per_inst
                      then take (nat (int (length sel) div cores_per_inst * cores_per_inst)) sel
                      else sel)
          in case texts kept of
               None \<Rightarrow> Inl AttributeError
             | Some locations \<Rightarrow> Inr (locations, map (split_last CHR ''/'') locations))"
proof -
  let ?cs = "if \<not> allow_existing then completed else {}"
  let ?sel = "take (nat batch_size) (selection ?cs exclude_failed (file_text fs ''failed.txt'') rows)"
  from assms(1) have "int (length ([]::cell list)) < batch_size" by simp
  from scan_rows_selection [OF assms(2,3) this]
  have scan: "scan_rows fs ?cs exclude_failed batch_size rows [] = Inr ?sel" by simp
  have "py_slice_to ?sel (int (length ?sel) - int (length ?sel) mod cores_per_inst) =
          (if 0 < cores_per_inst
           then take (nat (int (length ?sel) div cores_per_inst * cores_per_inst)) ?sel
           else ?sel)"
  proof (cases "0 < cores_per_inst")
    case True
    then show ?thesis using py_slice_to_positive [OF True, of ?sel] by simp
  next
    case False
    with assms(4) have neg: "cores_per_inst < 0" by simp
    from False show ?thesis using py_slice_to_negative [OF neg, of ?sel] by simp
  qed
  with resolve_inputs_after_scan [OF scan assms(4)] show ?thesis
    by (simp add: Let_def)
qed

text \<open>
  C2, as amended.  For every manifest and every \<open>batch_size\<close> of at least 1, a list of
  locations that \<open>resolve_inputs\<close> returns has at most \<open>batch_size\<close> elements.  When the
  header has both columns (and the ledger file exists if failures are excluded), the
  scan returns the first \<open>batch_size\<close> locations of the selection, in manifest order, so
  that earlier rows win, and \<open>resolve_inputs\<close> returns what the remainder rule keeps of
  them.
\<close>

theorem resolve_inputs_at_most_batch_size:
  assumes "1 \<le> batch_size"
  shows "(\<forall>locations filenames.
            resolve_inputs fs rows batch_size completed cores_per_inst allow_existing
              exclude_failed = Inr (locations, filenames) \<longrightarrow>
            int (length locations) \<le> batch_size)
       \<and> (has_columns rows \<and> ledger_available fs exclude_failed \<longrightarrow>
            scan_rows fs (if \<not> allow_existing then completed else {}) exclude_failed
              batch_size rows [] =
            Inr (take (nat batch_size)
                   (selection (if \<not> allow_existing then completed else {}) exclude_failed
                      (file_text fs ''failed.txt'') rows)))
       \<and> (has_columns rows \<and> ledger_available fs exclude_failed \<and> cores_per_inst \<noteq> 0 \<longrightarrow>
            resolve_inputs fs rows batch_size completed cores_per_inst allow_existing
              exclude_failed =
            (let sel = take (nat batch_size)
                         (selection (if \<not> allow_existing then completed else {})
                            exclude_failed (file_text fs ''failed.txt'') rows);
                 kept = (if 0 < cores_per_inst
                         then take (nat (int (length sel) div cores_per_inst * cores_per_inst))
                                sel
                         else sel)
             in case texts kept of
                  None \<Rightarrow> Inl AttributeError
                | Some locations \<Rightarrow> Inr (locations, map (split_last CHR ''/'') locations)))"
proof (intro conjI allI impI)
  fix locations filenames
  assume "resolve_inputs fs rows batch_size completed cores_per_inst allow_existing
              exclude_failed = Inr (locations, filenames)"
  from resolve_inputs_Inr_scan [OF this] obtain collected where
      scan: "scan_rows fs (if \<not> allow_existing then completed else {}) exclude_failed
               batch_size rows [] = Inr collected"
    and m: "map Text locations = py_slice_to collected
              (int (length collected) - int (length collected) mod cores_per_inst)"
    by blast
  from assms have "int (length ([]::cell list)) < batch_size" by simp
  from scan_rows_bound [OF this scan] have "int (length collected) \<le> batch_size" .
  moreover have "length (map Text locations) \<le> length collected"
    unfolding m by (rule length_py_slice_to_le)
  ultimately show "int (length locations) \<le> batch_size" by simp
next
  assume h: "has_columns rows \<and> ledger_available fs exclude_failed"
  from assms have "int (length ([]::cell list)) < batch_size" by simp
  with h show "scan_rows fs (if \<not> allow_existing then completed else {}) exclude_failed
              batch_size rows [] =
            Inr (take (nat batch_size)
                   (selection (if \<not> allow_existing then completed else {}) exclude_failed
                      (file_text fs ''failed.txt'') rows))"
    using scan_rows_selection [of rows fs exclude_failed "[]" batch_size] by simp
next
  assume "has_columns rows \<and> ledger_available fs exclude_failed \<and> cores_per_inst \<noteq> 0"
  then show "resolve_inputs fs rows batch_size completed cores_per_inst allow_existing
              exclude_failed =
            (let sel = take (nat batch_size)
                         (selection (if \<not> allow_existing then completed else {})
                            exclude_failed (file_text fs ''failed.txt'') rows);
                 kept = (if 0 < cores_per_inst
                         then take (nat (int (length sel) div cores_per_inst * cores_per_inst))
                                sel
                         else sel)
             in case texts kept of
                  None \<Rightarrow> Inl AttributeError
                | Some locations \<Rightarrow> Inr (locations, map (split_last CHR ''/'') locations))"
    using resolve_inputs_selection [OF assms] by blast
qed

theorem resolve_inputs_at_most_batch_size_witness:
  "(1::int) \<le> 2
   \<and> has_columns example_manifest \<and> ledger_available Map.empty False \<and> (1::int) \<noteq> 0
   \<and> selection {} False (file_text Map.empty ''failed.txt'') example_manifest =
       [Text ''s3://b/crams/ABC-RS1.cram'', Text ''s3://b/crams/DEF-RS2.cram'',
        Text ''s3://b/crams/GHI-RS3.cram'']
   \<and> scan_rows Map.empty {} False 2 example_manifest [] =
       Inr [Text ''s3://b/crams/ABC-RS1.cram'', Text ''s3://b/crams/DEF-RS2.cram'']
   \<and> resolve_inputs Map.empty example_manifest 2 {} 1 False False =
       Inr ([''s3://b/crams/ABC-RS1.cram'', ''s3://b/crams/DEF-RS2.cram''],
            [''ABC-RS1.cram'', ''DEF-RS2.cram''])
   \<and> int (length [''s3://b/crams/ABC-RS1.cram'', ''s3://b/crams/DEF-RS2.cram'']) \<le> 2"
proof -
  have h1: "(1::int) \<le> 2" by simp
  have h2: "has_columns example_manifest \<and> ledger_available Map.empty False" by code_simp
  have h3: "selection {} False (file_text Map.empty ''failed.txt'') example_manifest =
       [Text ''s3://b/crams/ABC-RS1.cram'', Text ''s3://b/crams/DEF-RS2.cram'',
        Text ''s3://b/crams/GHI-RS3.cram'']" by code_simp
  note t = resolve_inputs_at_most_batch_size [OF h1, where fs = Map.empty
      and allow_existing = False and completed = "{}" and exclude_failed = False
      and cores_per_inst = 1 and rows = example_manifest]
  from t h2 h3 have s: "scan_rows Map.empty {} False 2 example_manifest [] =
       Inr [Text ''s3://b/crams/ABC-RS1.cram'', Text ''s3://b/crams/DEF-RS2.cram'']"
    by simp
  from t h2 h3 have r: "resolve_inputs Map.empty example_manifest 2 {} 1 False False =
       Inr ([''s3://b/crams/ABC-RS1.cram'', ''s3://b/crams/DEF-RS2.cram''],
            [''ABC-RS1.cram'', ''DEF-RS2.cram''])"
    by (simp add: Let_def split_last_def)
  from t r have b: "int (length [''s3://b/crams/ABC-RS1.cram'', ''s3://b/crams/DEF-RS2.cram''])
      \<le> 2" by blast
  from h1 h2 h3 s r b show ?thesis by simp
qed

text \<open>
  The claim as stated, for every \<open>batch_size\<close>, fails at \<open>batch_size\<close> 0 and below: the
  test \<open>len(locations) == batch_size\<close> is made after the first row has been appended and
  is never met, so every selected location is returned.
\<close>

theorem resolve_inputs_batch_size_counterexample:
  "resolve_inputs Map.empty example_manifest 0 {} 1 False False =
     Inr ([''s3://b/crams/ABC-RS1.cram'', ''s3://b/crams/DEF-RS2.cram'',
           ''s3://b/crams/GHI-RS3.cram''],
          [''ABC-RS1.cram'', ''DEF-RS2.cram'', ''GHI-RS3.cram''])
   \<and> \<not> int (length [''s3://b/crams/ABC-RS1.cram'', ''s3://b/crams/DEF-RS2.cram'',
           ''s3://b/crams/GHI-RS3.cram'']) \<le> 0
   \<and> resolve_inputs Map.empty example_manifest (- 1) {} 1 False False =
     Inr ([''s3://b/crams/ABC-RS1.cram'', ''s3://b/crams/DEF-RS2.cram'',
           ''s3://b/crams/GHI-RS3.cram''],
          [''ABC-RS1.cram'', ''DEF-RS2.cram'', ''GHI-RS3.cram''])
   \<and> \<not> int (length [''s3://b/crams/ABC-RS1.cram'', ''s3://b/crams/DEF-RS2.cram'',
           ''s3://b/crams/GHI-RS3.cram'']) \<le> - 1"
  by code_simp



text \<open>
  C7, as amended.  \<open>resolve_inputs\<close> does not check \<open>cores_per_inst\<close>.  With
  \<open>cores_per_inst\<close> 0 the call raises \<open>ZeroDivisionError\<close>, at the remainder rule and
  so only after the scan of the manifest has returned; with a negative \<open>cores_per_inst\<close>
  nothing is rejected and the call returns every location the scan collected (or
  raises \<open>AttributeError\<close> when one of them is \<open>None\<close>).  An exception of the scan is
  raised before \<open>cores_per_inst\<close> is looked at.
\<close>

theorem resolve_inputs_nonpositive_cores:
  "(\<forall>collected.
      scan_rows fs (if \<not> allow_existing then completed else {}) exclude_failed batch_size
        rows [] = Inr collected \<and> cores_per_inst = 0 \<longrightarrow>
      resolve_inputs fs rows batch_size completed cores_per_inst allow_existing exclude_failed =
        Inl ZeroDivisionError)
   \<and> (\<forall>collected.
        scan_rows fs (if \<not> allow_existing then completed else {}) exclude_failed batch_size
          rows [] = Inr collected \<and> cores_per_inst < 0 \<longrightarrow>
        resolve_inputs fs rows batch_size completed cores_per_inst allow_existing
          exclude_failed =
          (case texts collected of
             None \<Rightarrow> Inl AttributeError
           | Some locations \<Rightarrow> Inr (locations, map (split_last CHR ''/'') locations)))
   \<and> (\<forall>e.
        scan_rows fs (if \<not> allow_existing then completed else {}) exclude_failed batch_size
          rows [] = Inl e \<longrightarrow>
        resolve_inputs fs rows batch_size completed cores_per_inst allow_existing
          exclude_failed = Inl e)"
proof (intro conjI allI impI)
  fix collected
  assume "scan_rows fs (if \<not> allow_existing then completed else {}) exclude_failed batch_size
        rows [] = Inr collected \<and> cores_per_inst = 0"
  then show "resolve_inputs fs rows batch_size completed cores_per_inst allow_existing
      exclude_failed = Inl ZeroDivisionError"
    by (simp add: resolve_inputs_def)
next
  fix collected
  assume h: "scan_rows fs (if \<not> allow_existing then completed else {}) exclude_failed
          batch_size rows [] = Inr collected \<and> cores_per_inst < 0"
  then have scan: "scan_rows fs (if \<not> allow_existing then completed else {}) exclude_failed
          batch_size rows [] = Inr collected"
    and neg: "cores_per_inst < 0" and nz: "cores_per_inst \<noteq> 0" by simp_all
  from resolve_inputs_after_scan [OF scan nz] py_slice_to_negative [OF neg, of collected]
  show "resolve_inputs fs rows batch_size completed cores_per_inst allow_existing
          exclude_failed =
          (case texts collected of
             None \<Rightarrow> Inl AttributeError
           | Some locations \<Rightarrow> Inr (locations, map (split_last CHR ''/'') locations))"
    by simp
next
  fix e
  assume "scan_rows fs (if \<not> allow_existing then completed else {}) exclude_failed batch_size
          rows [] = Inl e"
  then show "resolve_inputs fs rows batch_size completed cores_per_inst allow_existing
          exclude_failed = Inl e"
    by (simp add: resolve_inputs_def)
qed

theorem resolve_inputs_nonpositive_cores_witness:
  "scan_rows Map.empty {} False 3 example_manifest [] =
       Inr [Text ''s3://b/crams/ABC-RS1.cram'', Text ''s3://b/crams/DEF-RS2.cram'',
            Text ''s3://b/crams/GHI-RS3.cram'']
   \<and> resolve_inputs Map.empty example_manifest 3 {} 0 False False = Inl ZeroDivisionError
   \<and> (- 2::int) < 0
   \<and> resolve_inputs Map.empty example_manifest 3 {} (- 2) False False =
       Inr ([''s3://b/crams/ABC-RS1.cram'', ''s3://b/crams/DEF-RS2.cram'',
             ''s3://b/crams/GHI-RS3.cram''],
            [''ABC-RS1.cram'', ''DEF-RS2.cram'', ''GHI-RS3.cram''])
   \<and> scan_rows Map.empty {} False 3 [Map.empty] [] = Inl (KeyError ''Subject'')
   \<and> resolve_inputs Map.empty [Map.empty] 3 {} 0 False False = Inl (KeyError ''Subject'')"
proof -
  have h1: "scan_rows Map.empty (if \<not> False then {} else {}) False 3 example_manifest [] =
       Inr [Text ''s3://b/crams/ABC-RS1.cram'', Text ''s3://b/crams/DEF-RS2.cram'',
            Text ''s3://b/crams/GHI-RS3.cram'']" by code_simp
  have h2: "scan_rows Map.empty (if \<not> False then {} else {}) False 3 [Map.empty] [] =
       Inl (KeyError ''Subject'')" by code_simp
  have h3: "(- 2::int) < 0" by simp
  note t0 = resolve_inputs_nonpositive_cores [where fs = Map.empty
      and allow_existing = False and completed = "{}" and exclude_failed = False
      and batch_size = 3 and rows = example_manifest and cores_per_inst = 0]
  note t2 = resolve_inputs_nonpositive_cores [where fs = Map.empty
      and allow_existing = False and completed = "{}" and exclude_failed = False
      and batch_size = 3 and rows = example_manifest and cores_per_inst = "- 2"]
  note te = resolve_inputs_nonpositive_cores [where fs = Map.empty
      and allow_existing = False and completed = "{}" and exclude_failed = False
      and batch_size = 3 and rows = "[Map.empty]" and cores_per_inst = 0]
  from t0 h1 have r0: "resolve_inputs Map.empty example_manifest 3 {} 0 False False =
      Inl ZeroDivisionError" by blast
  from t2 h1 h3 have r2: "resolve_inputs Map.empty example_manifest 3 {} (- 2) False False =
       Inr ([''s3://b/crams/ABC-RS1.cram'', ''s3://b/crams/DEF-RS2.cram'',
             ''s3://b/crams/GHI-RS3.cram''],
            [''ABC-RS1.cram'', ''DEF-RS2.cram'', ''GHI-RS3.cram''])"
    by (simp add: split_last_def)
  from te h2 have re: "resolve_inputs Map.empty [Map.empty] 3 {} 0 False False =
      Inl (KeyError ''Subject'')" by blast
  from h1 h2 h3 r0 r2 re show ?thesis by simp
qed

text \<open>
  The claim as stated fails for a negative \<open>cores_per_inst\<close>: the call returns a result,
  here three locations for \<open>cores_per_inst\<close> -2.
\<close>

theorem resolve_inputs_negative_cores_counterexample:
  "(- 2::int) \<le> 0
   \<and> resolve_inputs Map.empty example_manifest 3 {} (- 2) False False =
       Inr ([''s3://b/crams/ABC-RS1.cram'', ''s3://b/crams/DEF-RS2.cram'',
             ''s3://b/crams/GHI-RS3.cram''],
            [''ABC-RS1.cram'', ''DEF-RS2.cram'', ''GHI-RS3.cram''])"
  by code_simp

section \<open>Properties of the failure-membership check\<close>

lemma concat_split_lines: "concat (split_lines acc s) = acc @ s"
  by (induction s arbitrary: acc) auto

lemma split_lines_shape:
  "CHR 0x0A \<notin> set acc \<Longrightarrow>
   list_all (\<lambda>line. line \<noteq> [] \<and> CHR 0x0A \<notin> set (butlast line)) (split_lines acc s)"
proof (induction s arbitrary: acc)
  case Nil
  then show ?case by (auto simp: butlast_append dest: in_set_butlastD)
next
  case (Cons c s)
  show ?case
  proof (cases "c = CHR 0x0A")
    case True
    have "list_all (\<lambda>line. line \<noteq> [] \<and> CHR 0x0A \<notin> set (butlast line)) (split_lines [] s)"
      by (rule Cons.IH) simp
    with True Cons.prems show ?thesis by simp
  next
    case False
    with Cons.prems have "CHR 0x0A \<notin> set (acc @ [c])" by simp
    from Cons.IH [OF this] False show ?thesis by simp
  qed
qed

text \<open>
  C6, as amended.  When \<open>failed.txt\<close> exists, \<open>file_in_failed\<close> returns true if and only
  if the subject equals some line of the file after the whitespace at both ends of the
  line, the newline included, has been removed; the subject itself is compared as it
  is.  The lines are the pieces of the text (with \<open>\r\n\<close> and \<open>\r\<close> read as \<open>\n\<close>) that
  end at each newline.  When \<open>failed.txt\<close> does not exist the check raises
  \<open>FileNotFoundError\<close>.
\<close>

theorem file_in_failed_stripped_lines:
  "(\<forall>ledger. fs ''failed.txt'' = Some ledger \<longrightarrow>
      file_in_failed fs (Text subject) =
        Inr (\<exists>line \<in> set (file_lines ledger). strip line = subject)
      \<and> concat (file_lines ledger) = universal_newlines ledger
      \<and> list_all (\<lambda>line. line \<noteq> [] \<and> CHR 0x0A \<notin> set (butlast line)) (file_lines ledger))
   \<and> (fs ''failed.txt'' = None \<longrightarrow>
        file_in_failed fs (Text subject) = Inl (FileNotFoundError ''failed.txt''))"
proof (intro conjI allI impI)
  fix ledger
  assume "fs ''failed.txt'' = Some ledger"
  then show "file_in_failed fs (Text subject) =
        Inr (\<exists>line \<in> set (file_lines ledger). strip line = subject)"
    by (simp add: file_in_failed_def scan_lines_Text list_ex_iff)
next
  fix ledger
  show "concat (file_lines ledger) = universal_newlines ledger"
    by (simp add: file_lines_def concat_split_lines)
next
  fix ledger
  show "list_all (\<lambda>line. line \<noteq> [] \<and> CHR 0x0A \<notin> set (butlast line)) (file_lines ledger)"
    unfolding file_lines_def by (rule split_lines_shape) simp
next
  assume "fs ''failed.txt'' = None"
  then show "file_in_failed fs (Text subject) = Inl (FileNotFoundError ''failed.txt'')"
    by (simp add: file_in_failed_def)
qed

theorem file_in_failed_stripped_lines_witness:
  "example_ledger ''failed.txt'' = Some (''DEF-RS2'' @ [CHR 0x0A])
   \<and> file_lines (''DEF-RS2'' @ [CHR 0x0A]) = [''DEF-RS2'' @ [CHR 0x0A]]
   \<and> strip (''DEF-RS2'' @ [CHR 0x0A]) = ''DEF-RS2''
   \<and> file_in_failed example_ledger (Text ''DEF-RS2'') = Inr True
   \<and> file_in_failed example_ledger (Text ''ABC-RS1'') = Inr False
   \<and> (Map.empty :: files) ''failed.txt'' = None
   \<and> file_in_failed Map.empty (Text ''DEF-RS2'') = Inl (FileNotFoundError ''failed.txt'')"
proof -
  have h1: "example_ledger ''failed.txt'' = Some (''DEF-RS2'' @ [CHR 0x0A])"
    by (simp add: example_ledger_def)
  have h2: "file_lines (''DEF-RS2'' @ [CHR 0x0A]) = [''DEF-RS2'' @ [CHR 0x0A]]" by code_simp
  have h3: "strip (''DEF-RS2'' @ [CHR 0x0A]) = ''DEF-RS2''" by code_simp
  have h4: "(Map.empty :: files) ''failed.txt'' = None" by simp
  from file_in_failed_stripped_lines [where fs = example_ledger and subject = "''DEF-RS2''"]
    h1 h2 h3
  have r1: "file_in_failed example_ledger (Text ''DEF-RS2'') = Inr True" by simp
  from file_in_failed_stripped_lines [where fs = example_ledger and subject = "''ABC-RS1''"]
    h1 h2 h3
  have r2: "file_in_failed example_ledger (Text ''ABC-RS1'') = Inr False" by simp
  from file_in_failed_stripped_lines [where fs = Map.empty and subject = "''DEF-RS2''"] h4
  have r3: "file_in_failed Map.empty (Text ''DEF-RS2'') = Inl (FileNotFoundError ''failed.txt'')"
    by blast
  from h1 h2 h3 h4 r1 r2 r3 show ?thesis by blast
qed

text \<open>
  The claim as stated compares whole lines exactly.  The check strips the line first:
  for the ledger whose only line is \<open>" A"\<close>, the subject \<open>"A"\<close> is reported though no line
  is \<open>"A"\<close>, and the subject \<open>" A"\<close> is not reported though it is a line.
\<close>

theorem file_in_failed_exact_line_counterexample:
  "file_in_failed [''failed.txt'' \<mapsto> [CHR 0x20, CHR ''A'', CHR 0x0A]] (Text ''A'') = Inr True
   \<and> ''A'' \<notin> set (exact_lines [CHR 0x20, CHR ''A'', CHR 0x0A])
   \<and> file_in_failed [''failed.txt'' \<mapsto> [CHR 0x20, CHR ''A'', CHR 0x0A]]
        (Text [CHR 0x20, CHR ''A'']) = Inr False
   \<and> [CHR 0x20, CHR ''A''] \<in> set (exact_lines [CHR 0x20, CHR ''A'', CHR 0x0A])"
  by code_simp

section \<open>Properties of the grouping engine\<close>

lemma py_slice_chunk:
  assumes "0 \<le> i" and "0 < k"
  shows "py_slice xs i (i + k) = take (nat k) (drop (nat i) xs)"
proof (cases "i < int (length xs)")
  case True
  let ?n = "int (length xs)"
  have "nat (min ?n (i + k) - i) = min (length xs - nat i) (nat k)"
    using assms True by (simp add: min_def) linarith
  then have "take (nat (min ?n (i + k) - i)) (drop (nat i) xs) = take (nat k) (drop (nat i) xs)"
    by (simp add: min_def)
  then show ?thesis
    using assms True by (simp add: py_slice_def Let_def min_def)
next
  case False
  then have "drop (nat i) xs = []" by simp
  moreover from False assms have "drop (nat (min (int (length xs)) i)) xs = []"
    by (simp add: min_def)
  ultimately show ?thesis
    using assms by (simp add: py_slice_def Let_def)
qed

lemma py_slice_map: "py_slice (map f xs) i j = map f (py_slice xs i j)"
  by (simp add: py_slice_def Let_def take_map drop_map)

lemma concat_chunks:
  "0 < k \<Longrightarrow> 0 \<le> i \<Longrightarrow>
   concat (map (\<lambda>j. py_slice xs j (j + k)) (range_up i (int (length xs)) k)) = drop (nat i) xs"
proof (induction i "int (length xs)" k rule: range_up.induct)
  case (1 i k)
  show ?case
  proof (cases "i < int (length xs)")
    case True
    with "1.prems" have c: "0 < k \<and> i < int (length xs)" by simp
    from "1.prems" have nn: "0 \<le> i + k" by simp
    have r: "range_up i (int (length xs)) k = i # range_up (i + k) (int (length xs)) k"
      using c by (subst range_up.simps) simp
    have "concat (map (\<lambda>j. py_slice xs j (j + k)) (range_up i (int (length xs)) k)) =
            py_slice xs i (i + k)
            @ concat (map (\<lambda>j. py_slice xs j (j + k)) (range_up (i + k) (int (length xs)) k))"
      unfolding r by simp
    also have "\<dots> = take (nat k) (drop (nat i) xs) @ drop (nat (i + k)) xs"
      using "1.hyps" [OF c "1.prems"(1) nn] py_slice_chunk [OF "1.prems"(2,1), of xs]
      by simp
    also have "\<dots> = take (nat k) (drop (nat i) xs) @ drop (nat k) (drop (nat i) xs)"
      using "1.prems" by (simp add: nat_add_distrib add.commute)
    also have "\<dots> = drop (nat i) xs"
      by (rule append_take_drop_id)
    finally show ?thesis .
  next
    case False
    then have "range_up i (int (length xs)) k = []"
      by (subst range_up.simps) simp
    moreover from False have "drop (nat i) xs = []" by simp
    ultimately show ?thesis by simp
  qed
qed

lemma range_down_empty: "0 \<le> stop \<Longrightarrow> range_down 0 stop step = []"
  by (subst range_down.simps) simp

lemma as_strings_map_Str: "as_strings (map Str ss) = Some ss"
  by (induction ss) simp_all

lemma as_groups_list_map:
  "as_groups_list (map (\<lambda>g. Lst (map Str g)) gs) = Some gs"
  by (induction gs) (simp_all add: as_strings_map_Str)

lemma chunks_groups_of:
  "chunks names k starts = Lst (map (\<lambda>g. Lst (map Str g)) (groups_of names k starts))"
  by (simp add: chunks_def groups_of_def comp_def)

lemma as_groups_chunks: "as_groups (chunks names k starts) = Some (groups_of names k starts)"
  by (simp add: chunks_groups_of as_groups_list_map)

lemma groups_of_map: "groups_of (map f names) k starts = map (map f) (groups_of names k starts)"
  by (simp add: groups_of_def py_slice_map)

lemma prepend_path_chunks:
  "prepend_path (chunks names k starts) path = chunks (map (\<lambda>s. path @ s) names) k starts"
  by (simp add: chunks_def py_slice_map comp_def)

lemma basename_chunks:
  "basename (chunks names k starts) =
     chunks (map (\<lambda>s. splitext_root (split_last CHR ''/'' s)) names) k starts"
  by (simp add: chunks_def py_slice_map comp_def)

lemma concat_groups_of:
  "0 < k \<Longrightarrow> concat (groups_of names k (range_up 0 (int (length names)) k)) = names"
  using concat_chunks [of k 0 names] by (simp add: groups_of_def)

lemma sum_list_length_concat: "sum_list (map length gs) = length (concat gs)"
  by (simp add: length_concat)

lemma group_inputs_positive:
  assumes "0 < items_per_list" and "get_filetype filenames = Inr (ftype, idx_ext)"
  shows "group_inputs get_filetype filenames items_per_list =
     (let starts = range_up 0 (int (length filenames)) items_per_list
      in Inr (chunks (map (\<lambda>s. splitext_root (split_last CHR ''/'' s)) filenames)
                items_per_list starts,
              chunks (map (\<lambda>s. ftype @ ''s/'' @ s) filenames) items_per_list starts,
              if truthy idx_ext
              then Some (chunks (map (\<lambda>s. ftype @ ''sidx/'' @ s @ ''.''
                                           @ (case idx_ext of Some e \<Rightarrow> e | None \<Rightarrow> []))
                                   filenames)
                           items_per_list starts)
              else None))"
  using assms
  by (simp add: group_inputs_def py_range_def Let_def prepend_path_chunks basename_chunks
        comp_def)

text \<open>
  C3.  Let \<open>items_per_list\<close> be positive and let the filetype resolver return.  Then
  \<open>group_inputs\<close> returns; the paths and the subjects are lists of groups of strings with
  the same group lengths, the group lengths of the paths add up to the number of file
  names, and the groups, laid end to end, are the path-qualified file names and the
  subject labels of the file names in their order.  When an index extension is resolved,
  the index paths are a list of groups with the same group lengths again, which laid
  end to end are the index paths of the file names in their order, so that each index
  group pairs position by position with the input group at the same place; otherwise the
  index paths are absent.
\<close>

theorem group_inputs_shape:
  assumes "0 < items_per_list" and "get_filetype filenames = Inr (ftype, idx_ext)"
  shows "\<exists>subjects paths idx gs gp.
           group_inputs get_filetype filenames items_per_list = Inr (subjects, paths, idx)
         \<and> as_groups subjects = Some gs \<and> as_groups paths = Some gp
         \<and> sum_list (map length gp) = length filenames
         \<and> map length gs = map length gp
         \<and> concat gp = map (\<lambda>f. ftype @ ''s/'' @ f) filenames
         \<and> concat gs = map (\<lambda>f. splitext_root (split_last CHR ''/'' f)) filenames
         \<and> (if truthy idx_ext
             then \<exists>ix gi ext. idx = Some ix \<and> idx_ext = Some ext \<and> as_groups ix = Some gi
                    \<and> map length gi = map length gp
                    \<and> concat gi = map (\<lambda>f. ftype @ ''sidx/'' @ f @ ''.'' @ ext) filenames
             else idx = None)"
proof -
  define starts where "starts = range_up 0 (int (length filenames)) items_per_list"
  define G where "G = groups_of filenames items_per_list starts"
  define stem where "stem = (\<lambda>f. splitext_root (split_last CHR ''/'' f))"
  define ext where "ext = (case idx_ext of Some e \<Rightarrow> e | None \<Rightarrow> [])"
  define subjects where "subjects = chunks (map stem filenames) items_per_list starts"
  define paths where
    "paths = chunks (map (\<lambda>s. ftype @ ''s/'' @ s) filenames) items_per_list starts"
  define ix where
    "ix = chunks (map (\<lambda>s. ftype @ ''sidx/'' @ s @ ''.'' @ ext) filenames)
            items_per_list starts"
  define idx where "idx = (if truthy idx_ext then Some ix else None)"
  have res: "group_inputs get_filetype filenames items_per_list = Inr (subjects, paths, idx)"
    using group_inputs_positive [where get_filetype = get_filetype and filenames = filenames, OF assms]
    by (simp add: Let_def subjects_def paths_def idx_def ix_def stem_def starts_def ext_def)
  have cG: "concat G = filenames"
    unfolding G_def starts_def using assms(1) by (rule concat_groups_of)
  have gs: "as_groups subjects = Some (map (map stem) G)"
    by (simp add: subjects_def as_groups_chunks groups_of_map G_def)
  have gp: "as_groups paths = Some (map (map (\<lambda>s. ftype @ ''s/'' @ s)) G)"
    by (simp add: paths_def as_groups_chunks groups_of_map G_def)
  have gi: "as_groups ix =
      Some (map (map (\<lambda>f. ftype @ ''sidx/'' @ f @ ''.'' @ ext)) G)"
    by (simp add: ix_def as_groups_chunks groups_of_map G_def comp_def)
  have sum: "sum_list (map length (map (map (\<lambda>s. ftype @ ''s/'' @ s)) G)) = length filenames"
    using cG by (simp add: comp_def sum_list_length_concat)
  have len_s: "map length (map (map stem) G) = map length (map (map (\<lambda>s. ftype @ ''s/'' @ s)) G)"
    by (simp add: comp_def)
  have len_i: "map length (map (map (\<lambda>f. ftype @ ''sidx/'' @ f @ ''.'' @ ext)) G) =
      map length (map (map (\<lambda>s. ftype @ ''s/'' @ s)) G)"
    by (simp add: comp_def)
  have cp: "concat (map (map (\<lambda>s. ftype @ ''s/'' @ s)) G) =
      map (\<lambda>f. ftype @ ''s/'' @ f) filenames"
    using cG by (simp add: map_concat [symmetric])
  have cs: "concat (map (map stem) G) = map stem filenames"
    using cG by (simp add: map_concat [symmetric])
  have ci: "concat (map (map (\<lambda>f. ftype @ ''sidx/'' @ f @ ''.'' @ ext)) G) =
      map (\<lambda>f. ftype @ ''sidx/'' @ f @ ''.'' @ ext) filenames"
    using cG by (simp add: map_concat [symmetric])
  have index: "if truthy idx_ext
             then \<exists>ix gi ext. idx = Some ix \<and> idx_ext = Some ext \<and> as_groups ix = Some gi
                    \<and> map length gi = map length (map (map (\<lambda>s. ftype @ ''s/'' @ s)) G)
                    \<and> concat gi = map (\<lambda>f. ftype @ ''sidx/'' @ f @ ''.'' @ ext) filenames
             else idx = None"
  proof (cases "truthy idx_ext")
    case True
    then obtain e where e: "idx_ext = Some e" by (cases idx_ext) (simp_all add: truthy_def)
    then have "ext = e" by (simp add: ext_def)
    with True e gi len_i ci show ?thesis
      unfolding idx_def by auto
  next
    case False
    then show ?thesis by (simp add: idx_def)
  qed
  from res gs gp sum len_s cp cs index show ?thesis
    unfolding stem_def by blast
qed

theorem group_inputs_shape_witness:
  "(0::int) < 2
   \<and> cram_filetype [''a.cram'', ''b.cram'', ''c.cram''] = Inr (''cram'', Some ''crai'')
   \<and> group_inputs cram_filetype [''a.cram'', ''b.cram'', ''c.cram''] 2 =
       Inr (Lst [Lst [Str ''a'', Str ''b''], Lst [Str ''c'']],
            Lst [Lst [Str ''crams/a.cram'', Str ''crams/b.cram''], Lst [Str ''crams/c.cram'']],
            Some (Lst [Lst [Str ''cramsidx/a.cram.crai'', Str ''cramsidx/b.cram.crai''],
                       Lst [Str ''cramsidx/c.cram.crai'']]))
   \<and> (\<exists>subjects paths idx gs gp.
         group_inputs cram_filetype [''a.cram'', ''b.cram'', ''c.cram''] 2 =
           Inr (subjects, paths, idx)
       \<and> as_groups subjects = Some gs \<and> as_groups paths = Some gp
       \<and> sum_list (map length gp) = length [''a.cram'', ''b.cram'', ''c.cram'']
       \<and> map length gs = map length gp)"
proof -
  have h1: "(0::int) < 2" by simp
  have h2: "cram_filetype [''a.cram'', ''b.cram'', ''c.cram''] = Inr (''cram'', Some ''crai'')"
    by (simp add: cram_filetype_def)
  have h3: "group_inputs cram_filetype [''a.cram'', ''b.cram'', ''c.cram''] 2 =
       Inr (Lst [Lst [Str ''a'', Str ''b''], Lst [Str ''c'']],
            Lst [Lst [Str ''crams/a.cram'', Str ''crams/b.cram''], Lst [Str ''crams/c.cram'']],
            Some (Lst [Lst [Str ''cramsidx/a.cram.crai'', Str ''cramsidx/b.cram.crai''],
                       Lst [Str ''cramsidx/c.cram.crai'']]))"
    by code_simp
  from group_inputs_shape [where get_filetype = cram_filetype
      and filenames = "[''a.cram'', ''b.cram'', ''c.cram'']", OF h1 h2]
  have "\<exists>subjects paths idx gs gp.
         group_inputs cram_filetype [''a.cram'', ''b.cram'', ''c.cram''] 2 =
           Inr (subjects, paths, idx)
       \<and> as_groups subjects = Some gs \<and> as_groups paths = Some gp
       \<and> sum_list (map length gp) = length [''a.cram'', ''b.cram'', ''c.cram'']
       \<and> map length gs = map length gp"
    by blast
  with h1 h2 h3 show ?thesis by blast
qed




text \<open>
  C10.  Let \<open>items_per_list\<close> be negative and let the filetype resolver return.  Then
  \<open>range(0, len(filenames), items_per_list)\<close> has no index, and \<open>group_inputs\<close> returns,
  raising nothing: the subjects and the paths are empty lists, whatever the file
  names are, and the index paths are an empty list or absent.
\<close>

theorem group_inputs_negative_size:
  assumes "items_per_list < 0" and "get_filetype filenames = Inr (ftype, idx_ext)"
  shows "group_inputs get_filetype filenames items_per_list =
           Inr (Lst [], Lst [], if truthy idx_ext then Some (Lst []) else None)
       \<and> py_range 0 (int (length filenames)) items_per_list = Inr []"
proof -
  have r: "py_range 0 (int (length filenames)) items_per_list = Inr []"
    using assms(1) by (simp add: py_range_def range_down_empty)
  with assms(2) show ?thesis
    by (simp add: group_inputs_def Let_def chunks_def)
qed

theorem group_inputs_negative_size_witness:
  "(- 2::int) < 0
   \<and> cram_filetype [''a.cram'', ''b.cram'', ''c.cram''] = Inr (''cram'', Some ''crai'')
   \<and> [''a.cram'', ''b.cram'', ''c.cram''] \<noteq> []
   \<and> group_inputs cram_filetype [''a.cram'', ''b.cram'', ''c.cram''] (- 2) =
       Inr (Lst [], Lst [], Some (Lst []))"
proof -
  have h1: "(- 2::int) < 0" by simp
  have h2: "cram_filetype [''a.cram'', ''b.cram'', ''c.cram''] = Inr (''cram'', Some ''crai'')"
    by (simp add: cram_filetype_def)
  from group_inputs_negative_size [where get_filetype = cram_filetype
      and filenames = "[''a.cram'', ''b.cram'', ''c.cram'']", OF h1 h2] h1 h2 show ?thesis
    by (simp add: truthy_def)
qed

section \<open>Properties of the run auditor\<close>

lemma split_first_before:
  "sep \<noteq> [] \<Longrightarrow> \<not> sublist sep (xs @ butlast sep) \<Longrightarrow> split_first sep (xs @ sep @ ys) = xs"
proof (induction xs)
  case Nil
  then obtain c cs where "sep = c # cs" by (cases sep) auto
  then show ?case by simp
next
  case (Cons x xs)
  have np: "\<not> prefix sep (x # xs @ sep @ ys)"
  proof
    assume p: "prefix sep (x # xs @ sep @ ys)"
    have q: "prefix ((x # xs) @ butlast sep) (x # xs @ sep @ ys)"
    proof -
      have "x # xs @ sep @ ys = ((x # xs) @ butlast sep) @ ([last sep] @ ys)"
        using Cons.prems(1) by simp
      then show ?thesis unfolding prefix_def by blast
    qed
    have "length sep \<le> length ((x # xs) @ butlast sep)" by simp
    with p q have "prefix sep ((x # xs) @ butlast sep)"
      by (rule prefix_length_prefix)
    then have "sublist sep ((x # xs) @ butlast sep)" by (rule prefix_imp_sublist)
    with Cons.prems(2) show False by simp
  qed
  have "\<not> sublist sep (xs @ butlast sep)"
  proof
    assume "sublist sep (xs @ butlast sep)"
    then have "sublist sep (x # xs @ butlast sep)" by (simp add: sublist_Cons_right)
    with Cons.prems(2) show False by simp
  qed
  with Cons.IH Cons.prems(1) have "split_first sep (xs @ sep @ ys) = xs" by blast
  with np show ?case by simp
qed

lemma split_first_suffix:
  "sep \<noteq> [] \<Longrightarrow> \<not> contains (job @ butlast sep) sep \<Longrightarrow> split_first sep (job @ sep) = job"
  using split_first_before [of sep job "[]"] by (simp add: contains_def)

lemma removesuffix_append: "removesuffix sfx (job @ sfx) = job"
  by (simp add: removesuffix_def suffix_def)

lemma scan_postrun_set:
  "scan_postrun b keys acc = Inr failed \<Longrightarrow>
   set failed = set acc \<union>
     {split_first ''.postrun.json'' key | key content.
        key \<in> set keys \<and> endswith key ''.postrun.json''
        \<and> get_object b key = Inr (Some content) \<and> \<not> contains content md5sum_marker}"
proof (induction keys arbitrary: acc)
  case Nil
  then show ?case by simp
next
  case (Cons key rest)
  let ?new = "\<lambda>ks. {split_first ''.postrun.json'' k | k content.
        k \<in> set ks \<and> endswith k ''.postrun.json''
        \<and> get_object b k = Inr (Some content) \<and> \<not> contains content md5sum_marker}"
  show ?case
  proof (cases "endswith key ''.postrun.json''")
    case False
    with Cons.prems have "scan_postrun b rest acc = Inr failed" by simp
    from Cons.IH [OF this] have "set failed = set acc \<union> ?new rest" .
    moreover from False have "?new (key # rest) = ?new rest" by auto
    ultimately show ?thesis by simp
  next
    case True
    show ?thesis
    proof (cases "get_object b key")
      case (Inl e)
      with Cons.prems True show ?thesis by simp
    next
      case (Inr body)
      show ?thesis
      proof (cases body)
        case None
        with Cons.prems True Inr show ?thesis by simp
      next
        case (Some content)
        show ?thesis
        proof (cases "contains content md5sum_marker")
          case c: True
          with Cons.prems True Inr Some have "scan_postrun b rest acc = Inr failed" by simp
          from Cons.IH [OF this] have "set failed = set acc \<union> ?new rest" .
          moreover from c Inr Some have "?new (key # rest) = ?new rest" by auto
          ultimately show ?thesis by simp
        next
          case c: False
          with Cons.prems True Inr Some
          have "scan_postrun b rest (acc @ [split_first ''.postrun.json'' key]) = Inr failed"
            by simp
          from Cons.IH [OF this]
          have "set failed = set (acc @ [split_first ''.postrun.json'' key]) \<union> ?new rest" .
          moreover from c True Inr Some
          have "?new (key # rest) = insert (split_first ''.postrun.json'' key) (?new rest)"
            by auto
          ultimately show ?thesis by simp
        qed
      qed
    qed
  qed
qed

lemma scan_postrun_returns:
  "list_all (\<lambda>key. \<not> endswith key ''.postrun.json''
               \<or> (\<exists>content. get_object b key = Inr (Some content))) keys \<Longrightarrow>
   \<exists>failed. scan_postrun b keys acc = Inr failed"
proof (induction keys arbitrary: acc)
  case Nil
  show ?case by simp
next
  case (Cons key rest)
  from Cons.prems have r: "list_all (\<lambda>key. \<not> endswith key ''.postrun.json''
               \<or> (\<exists>content. get_object b key = Inr (Some content))) rest" by simp
  show ?case
  proof (cases "endswith key ''.postrun.json''")
    case False
    with Cons.IH [OF r, of acc] show ?thesis by simp
  next
    case True
    with Cons.prems obtain content where g: "get_object b key = Inr (Some content)" by auto
    show ?thesis
    proof (cases "contains content md5sum_marker")
      case c: True
      with True g Cons.IH [OF r, of acc] show ?thesis by simp
    next
      case c: False
      with True g Cons.IH [OF r, of "acc @ [split_first ''.postrun.json'' key]"]
      show ?thesis by simp
    qed
  qed
qed

lemma listed_keys_fetch:
  "list_all (\<lambda>key. \<exists>body. get_object b key = Inr body)
     (list_objects_v2 b (jobid_prefix @ ''.''))"
proof -
  have "\<And>key. key \<in> set (list_objects_v2 b (jobid_prefix @ ''.'')) \<Longrightarrow>
          \<exists>body. get_object b key = Inr body"
  proof -
    fix key
    assume "key \<in> set (list_objects_v2 b (jobid_prefix @ ''.''))"
    then have "key \<in> set (sort (remdups (filter (prefix (jobid_prefix @ ''.'')) (map fst b))))"
      unfolding list_objects_v2_def by (rule in_set_takeD)
    then have k: "key \<in> fst ` set b" and p: "prefix (jobid_prefix @ ''.'') key" by auto
    from p have ne: "key \<noteq> []" by (auto simp: prefix_def)
    from k obtain body where "map_of b key = Some body"
      by (metis domD dom_map_of_conv_image_fst)
    with ne show "\<exists>body. get_object b key = Inr body" by (simp add: get_object_def)
  qed
  then show ?thesis unfolding list_all_iff by blast
qed

text \<open>
  C9, as amended.  Of the keys scanned, those that end in \<open>.postrun.json\<close> are fetched,
  and a run is judged failed if and only if its decoded content does not contain the
  text \<open>"md5sum":"\<close>.  The failed set is exactly the set of the job identifiers of
  the failed runs, where the job identifier of a key is the part of the key before its
  first occurrence of \<open>.postrun.json\<close>; that is the key with the suffix stripped whenever
  \<open>.postrun.json\<close> does not occur in the key before the suffix.  The scan returns when
  every fetched content decodes, and every key of the listing can be fetched.
\<close>

theorem scan_postrun_failed_set:
  "(\<forall>failed. scan_postrun b keys [] = Inr failed \<longrightarrow>
      set failed =
        {split_first ''.postrun.json'' key | key content.
           key \<in> set keys \<and> endswith key ''.postrun.json''
           \<and> get_object b key = Inr (Some content) \<and> \<not> contains content md5sum_marker})
   \<and> (list_all (\<lambda>key. \<not> endswith key ''.postrun.json''
                   \<or> (\<exists>content. get_object b key = Inr (Some content))) keys \<longrightarrow>
        (\<exists>failed. scan_postrun b keys [] = Inr failed))
   \<and> (\<forall>content. contains content md5sum_marker \<longleftrightarrow>
                   (\<exists>ps ss. content = ps @ md5sum_marker @ ss))
   \<and> (\<forall>job. \<not> contains (job @ butlast ''.postrun.json'') ''.postrun.json'' \<longrightarrow>
          split_first ''.postrun.json'' (job @ ''.postrun.json'') = job
        \<and> removesuffix ''.postrun.json'' (job @ ''.postrun.json'') = job)
   \<and> list_all (\<lambda>key. \<exists>body. get_object b key = Inr body)
        (list_objects_v2 b (jobid_prefix @ ''.''))"
proof (intro conjI allI impI)
  fix failed
  assume "scan_postrun b keys [] = Inr failed"
  from scan_postrun_set [OF this]
  show "set failed =
        {split_first ''.postrun.json'' key | key content.
           key \<in> set keys \<and> endswith key ''.postrun.json''
           \<and> get_object b key = Inr (Some content) \<and> \<not> contains content md5sum_marker}"
    by simp
next
  assume "list_all (\<lambda>key. \<not> endswith key ''.postrun.json''
                   \<or> (\<exists>content. get_object b key = Inr (Some content))) keys"
  then show "\<exists>failed. scan_postrun b keys [] = Inr failed"
    by (rule scan_postrun_returns)
next
  fix content
  show "contains content md5sum_marker \<longleftrightarrow> (\<exists>ps ss. content = ps @ md5sum_marker @ ss)"
    by (simp add: contains_def sublist_def)
next
  fix job
  assume "\<not> contains (job @ butlast ''.postrun.json'') ''.postrun.json''"
  then show "split_first ''.postrun.json'' (job @ ''.postrun.json'') = job"
    by (intro split_first_suffix) simp_all
next
  fix job
  show "removesuffix ''.postrun.json'' (job @ ''.postrun.json'') = job"
    by (rule removesuffix_append)
next
  show "list_all (\<lambda>key. \<exists>body. get_object b key = Inr body)
        (list_objects_v2 b (jobid_prefix @ ''.''))"
    by (rule listed_keys_fetch)
qed

theorem scan_postrun_failed_set_witness:
  "list_objects_v2 example_root_bucket (''job1'' @ ''.'') =
     [''job1.a.postrun.json'', ''job1.b.postrun.json'', ''job1.log'']
   \<and> list_all (\<lambda>key. \<not> endswith key ''.postrun.json''
                 \<or> (\<exists>content. get_object example_root_bucket key = Inr (Some content)))
        [''job1.a.postrun.json'', ''job1.b.postrun.json'', ''job1.log'']
   \<and> scan_postrun example_root_bucket
        [''job1.a.postrun.json'', ''job1.b.postrun.json'', ''job1.log''] [] = Inr [''job1.a'']
   \<and> set [''job1.a''] =
        {split_first ''.postrun.json'' key | key content.
           key \<in> set [''job1.a.postrun.json'', ''job1.b.postrun.json'', ''job1.log'']
           \<and> endswith key ''.postrun.json''
           \<and> get_object example_root_bucket key = Inr (Some content)
           \<and> \<not> contains content md5sum_marker}
   \<and> \<not> contains (''job1.a'' @ butlast ''.postrun.json'') ''.postrun.json''
   \<and> split_first ''.postrun.json'' (''job1.a'' @ ''.postrun.json'') = ''job1.a''"
proof -
  note t = scan_postrun_failed_set [where b = example_root_bucket
      and keys = "[''job1.a.postrun.json'', ''job1.b.postrun.json'', ''job1.log'']"
      and jobid_prefix = "''job1''"]
  have h1: "list_objects_v2 example_root_bucket (''job1'' @ ''.'') =
     [''job1.a.postrun.json'', ''job1.b.postrun.json'', ''job1.log'']" by code_simp
  have g1: "\<exists>content. get_object example_root_bucket ''job1.a.postrun.json'' = Inr (Some content)"
    by (simp add: get_object_def example_root_bucket_def)
  have g2: "\<exists>content. get_object example_root_bucket ''job1.b.postrun.json'' = Inr (Some content)"
    by (simp add: get_object_def example_root_bucket_def)
  have g3: "\<not> endswith ''job1.log'' ''.postrun.json''" by code_simp
  from g1 g2 g3 have h2: "list_all (\<lambda>key. \<not> endswith key ''.postrun.json''
                 \<or> (\<exists>content. get_object example_root_bucket key = Inr (Some content)))
        [''job1.a.postrun.json'', ''job1.b.postrun.json'', ''job1.log'']" by simp
  have h3: "scan_postrun example_root_bucket
        [''job1.a.postrun.json'', ''job1.b.postrun.json'', ''job1.log''] [] = Inr [''job1.a'']"
    by code_simp
  have h4: "\<not> contains (''job1.a'' @ butlast ''.postrun.json'') ''.postrun.json''" by code_simp
  from t h3 have r1: "set [''job1.a''] =
        {split_first ''.postrun.json'' key | key content.
           key \<in> set [''job1.a.postrun.json'', ''job1.b.postrun.json'', ''job1.log'']
           \<and> endswith key ''.postrun.json''
           \<and> get_object example_root_bucket key = Inr (Some content)
           \<and> \<not> contains content md5sum_marker}" by blast
  from t h4 have r2: "split_first ''.postrun.json'' (''job1.a'' @ ''.postrun.json'') = ''job1.a''"
    by blast
  from h1 h2 h3 h4 r1 r2 show ?thesis by blast
qed

text \<open>
  The claim as stated takes the job identifier to be the key with the suffix stripped.
  For a key in which \<open>.postrun.json\<close> occurs twice the collected identifier is the part
  before the first occurrence, which is not the key with the suffix stripped.
\<close>

theorem scan_postrun_job_id_counterexample:
  "endswith ''a.postrun.json.postrun.json'' ''.postrun.json''
   \<and> scan_postrun [(''a.postrun.json.postrun.json'', Some ''{}'')]
        [''a.postrun.json.postrun.json''] [] = Inr [''a'']
   \<and> removesuffix ''.postrun.json'' ''a.postrun.json.postrun.json'' = ''a.postrun.json''
   \<and> ''a'' \<noteq> ''a.postrun.json''"
  by code_simp

lemma set_iter_set: "set (set_iter rank xs) = set xs"
  by (simp add: set_iter_def)

lemma set_iter_distinct: "distinct (set_iter rank xs)"
  by (simp add: set_iter_def)

lemma process_postrun_files_result:
  "process_postrun_files rank_ids rank_lines jobid_prefix (outbucket, fs) =
     (case move_logs_to_root jobid_prefix outbucket of
        (Some e, b1) \<Rightarrow> (Some e, b1, fs)
      | (None, b1) \<Rightarrow>
          (case scan_postrun b1 (list_objects_v2 b1 (jobid_prefix @ ''.'')) [] of
             Inl e \<Rightarrow> (Some e, b1, fs)
           | Inr failed_job_ids \<Rightarrow>
               (fst (move_logs_to_folder jobid_prefix b1),
                snd (move_logs_to_folder jobid_prefix b1),
                fs(''failed_runs.txt'' \<mapsto>
                     concat (set_iter rank_lines
                       (file_lines (file_text fs ''failed_runs.txt''
                          @ concat (map (\<lambda>job_id. job_id @ [CHR 0x0A])
                                      (set_iter rank_ids failed_job_ids)))))))))"
  by (simp add: process_postrun_files_def Let_def split: prod.splits option.splits sum.splits)

lemma process_postrun_files_files:
  assumes "process_postrun_files rank_ids rank_lines jobid_prefix (outbucket, fs) = (e, b', fs')"
  shows "fs' = fs \<or> (\<exists>txt. fs' = fs(''failed_runs.txt'' \<mapsto> txt))"
proof (cases "move_logs_to_root jobid_prefix outbucket")
  case (Pair e1 b1)
  show ?thesis
  proof (cases e1)
    case (Some err)
    with assms Pair show ?thesis by (simp add: process_postrun_files_result)
  next
    case None
    show ?thesis
    proof (cases "scan_postrun b1 (list_objects_v2 b1 (jobid_prefix @ ''.'')) []")
      case (Inl err)
      with assms Pair None show ?thesis by (simp add: process_postrun_files_result)
    next
      case (Inr failed)
      with assms Pair None show ?thesis by (auto simp: process_postrun_files_result)
    qed
  qed
qed

text \<open>
  C8, as amended.  The run auditor writes one local file, \<open>failed_runs.txt\<close>: when the
  logs have been moved to the root and the scan has returned, the failed job
  identifiers, each once and each followed by a newline, are appended to it and the file
  is rewritten from the set of its lines.  It never writes \<open>failed.txt\<close>, the file the
  membership check reads, nor any other file: after an audit, whether or not it
  raised, \<open>file_in_failed\<close> returns for every subject what it returned before.
\<close>

theorem audit_leaves_failed_txt:
  assumes "process_postrun_files rank_ids rank_lines jobid_prefix (outbucket, fs) = (e, b', fs')"
  shows "fs' ''failed.txt'' = fs ''failed.txt''
       \<and> file_in_failed fs' subject = file_in_failed fs subject
       \<and> (\<forall>name. name \<noteq> ''failed_runs.txt'' \<longrightarrow> fs' name = fs name)
       \<and> (\<forall>b1 failed.
            move_logs_to_root jobid_prefix outbucket = (None, b1)
            \<and> scan_postrun b1 (list_objects_v2 b1 (jobid_prefix @ ''.'')) [] = Inr failed \<longrightarrow>
            fs' ''failed_runs.txt'' =
              Some (concat (set_iter rank_lines
                      (file_lines (file_text fs ''failed_runs.txt''
                         @ concat (map (\<lambda>job_id. job_id @ [CHR 0x0A])
                                     (set_iter rank_ids failed))))))
            \<and> set (set_iter rank_ids failed) = set failed
            \<and> distinct (set_iter rank_ids failed))"
proof (intro conjI allI impI)
  from process_postrun_files_files [OF assms]
  show "fs' ''failed.txt'' = fs ''failed.txt''" by auto
  from process_postrun_files_files [OF assms]
  have "fs' ''failed.txt'' = fs ''failed.txt''" by auto
  then show "file_in_failed fs' subject = file_in_failed fs subject"
    by (simp add: file_in_failed_def)
next
  fix name :: string
  assume "name \<noteq> ''failed_runs.txt''"
  with process_postrun_files_files [OF assms] show "fs' name = fs name" by auto
next
  fix b1 failed
  assume "move_logs_to_root jobid_prefix outbucket = (None, b1)
            \<and> scan_postrun b1 (list_objects_v2 b1 (jobid_prefix @ ''.'')) [] = Inr failed"
  with assms show "fs' ''failed_runs.txt'' =
              Some (concat (set_iter rank_lines
                      (file_lines (file_text fs ''failed_runs.txt''
                         @ concat (map (\<lambda>job_id. job_id @ [CHR 0x0A])
                                     (set_iter rank_ids failed))))))"
    by (auto simp: process_postrun_files_result)
next
  fix b1 failed
  show "set (set_iter rank_ids failed) = set failed" by (rule set_iter_set)
next
  fix b1 failed
  show "distinct (set_iter rank_ids failed)" by (rule set_iter_distinct)
qed

theorem audit_leaves_failed_txt_witness:
  "process_postrun_files adding_order adding_order ''job1'' (example_bucket, example_files) =
     (fst example_audit, fst (snd example_audit), snd (snd example_audit))
   \<and> move_logs_to_root ''job1'' example_bucket = (None, example_root_bucket)
   \<and> scan_postrun example_root_bucket (list_objects_v2 example_root_bucket (''job1'' @ ''.'')) []
       = Inr [''job1.a'']
   \<and> fst example_audit = None
   \<and> snd (snd example_audit) ''failed.txt'' = Some []
   \<and> file_in_failed (snd (snd example_audit)) (Text ''job1.a'') = Inr False
   \<and> snd (snd example_audit) ''failed_runs.txt'' = Some (''job1.a'' @ [CHR 0x0A])"
proof -
  have h1: "process_postrun_files adding_order adding_order ''job1''
              (example_bucket, example_files) =
     (fst example_audit, fst (snd example_audit), snd (snd example_audit))"
    by (simp add: example_audit_def)
  have h2: "move_logs_to_root ''job1'' example_bucket = (None, example_root_bucket)
   \<and> scan_postrun example_root_bucket (list_objects_v2 example_root_bucket (''job1'' @ ''.'')) []
       = Inr [''job1.a'']" by code_simp
  have h3: "fst example_audit = None" by code_simp
  have h4: "example_files ''failed.txt'' = Some []
    \<and> file_in_failed example_files (Text ''job1.a'') = Inr False
    \<and> concat (set_iter adding_order
                (file_lines (file_text example_files ''failed_runs.txt''
                   @ concat (map (\<lambda>job_id. job_id @ [CHR 0x0A])
                               (set_iter adding_order [''job1.a''])))))
        = ''job1.a'' @ [CHR 0x0A]" by code_simp
  note t = audit_leaves_failed_txt [OF h1, where subject = "Text ''job1.a''"]
  from t h4 have r1: "snd (snd example_audit) ''failed.txt'' = Some []" by simp
  from t h4 have r2: "file_in_failed (snd (snd example_audit)) (Text ''job1.a'') = Inr False"
    by simp
  from t h2 have "snd (snd example_audit) ''failed_runs.txt'' =
      Some (concat (set_iter adding_order
                (file_lines (file_text example_files ''failed_runs.txt''
                   @ concat (map (\<lambda>job_id. job_id @ [CHR 0x0A])
                               (set_iter adding_order [''job1.a'']))))))"
    by blast
  with h4 have r3: "snd (snd example_audit) ''failed_runs.txt'' = Some (''job1.a'' @ [CHR 0x0A])"
    by simp
  from h1 h2 h3 r1 r2 r3 show ?thesis by blast
qed

text \<open>
  The claim as stated has the membership check read the file the auditor appends to.
  The auditor appends to \<open>failed_runs.txt\<close>, the membership check reads \<open>failed.txt\<close>: after
  the audit below has recorded the failed job \<open>job1.a\<close>, the membership check on \<open>job1.a\<close>
  returns false.
\<close>

theorem audit_membership_counterexample:
  "fst example_audit = None
   \<and> snd (snd example_audit) ''failed_runs.txt'' = Some (''job1.a'' @ [CHR 0x0A])
   \<and> file_in_failed (snd (snd example_audit)) (Text ''job1.a'') = Inr False"
  by code_simp

end
